theory Spec2Isabelle
  imports Main "HOL-Library.Word"
begin

section \<open>The connection actor of connection.cpp\<close>

text \<open>
  A shallow embedding of \<^verbatim>\<open>src/connection.cpp\<close>: the string helpers of the header
  parser, the completion handlers of \<^verbatim>\<open>Caster::Connection\<close>, the timeout supervisor,
  and the reactor that delivers completions to the handlers.
\<close>

subsection \<open>std::string primitives\<close>

text \<open>
  \<^verbatim>\<open>size_t\<close> is a 64-bit unsigned integer; \<^verbatim>\<open>std::string::npos\<close> is its largest
  value. Arithmetic on positions wraps, as in the source.
\<close>

type_synonym size_t = "64 word"

definition npos :: size_t where
  "npos = 18446744073709551615"

definition CR :: char where "CR = CHR 0x0D"
definition LF :: char where "LF = CHR 0x0A"
definition TAB :: char where "TAB = CHR 0x09"
definition CRLF :: string where "CRLF = [CR, LF]"

datatype exn = OutOfRange

text \<open>Position of the first character satisfying \<open>P\<close>, counted from \<open>i\<close>.\<close>

fun first_pos :: "(char \<Rightarrow> bool) \<Rightarrow> nat \<Rightarrow> string \<Rightarrow> nat option" where
  "first_pos P i [] = None"
| "first_pos P i (c # cs) = (if P c then Some i else first_pos P (Suc i) cs)"

text \<open>Position of the last character satisfying \<open>P\<close>, counted from \<open>i\<close>.\<close>

fun last_pos :: "(char \<Rightarrow> bool) \<Rightarrow> nat \<Rightarrow> string \<Rightarrow> nat option" where
  "last_pos P i [] = None"
| "last_pos P i (c # cs) =
     (case last_pos P (Suc i) cs of
        Some j \<Rightarrow> Some j
      | None \<Rightarrow> (if P c then Some i else None))"

definition to_pos :: "nat option \<Rightarrow> size_t" where
  "to_pos r = (case r of None \<Rightarrow> npos | Some i \<Rightarrow> of_nat i)"

text \<open>\<^verbatim>\<open>src.find_first_of(delimiter)\<close>\<close>

definition find_first_of :: "string \<Rightarrow> char \<Rightarrow> size_t" where
  "find_first_of src delimiter = to_pos (first_pos (\<lambda>c. c = delimiter) 0 src)"

text \<open>\<^verbatim>\<open>src.find_first_not_of(chars)\<close>\<close>

definition find_first_not_of :: "string \<Rightarrow> string \<Rightarrow> size_t" where
  "find_first_not_of src chars = to_pos (first_pos (\<lambda>c. c \<notin> set chars) 0 src)"

text \<open>
  \<^verbatim>\<open>src.find_last_not_of(chars, std::string::npos, n)\<close>: the search starts at the end
  of the string and only the first \<open>n\<close> characters of \<open>chars\<close> form the set.
\<close>

definition find_last_not_of :: "string \<Rightarrow> string \<Rightarrow> nat \<Rightarrow> size_t" where
  "find_last_not_of src chars n =
     to_pos (last_pos (\<lambda>c. c \<notin> set (take n chars)) 0 src)"

text \<open>
  \<^verbatim>\<open>src.substr(pos, n)\<close> throws \<^verbatim>\<open>std::out_of_range\<close> when \<open>pos > size()\<close>; otherwise
  it returns at most \<open>n\<close> characters starting at \<open>pos\<close>.
\<close>

definition substr :: "string \<Rightarrow> size_t \<Rightarrow> size_t \<Rightarrow> exn + string" where
  "substr src pos n =
     (if length src < unat pos then Inl OutOfRange
      else Inr (take (unat n) (drop (unat pos) src)))"

subsection \<open>splitString and trimStringPair\<close>

definition splitString :: "string \<Rightarrow> char \<Rightarrow> exn + (string \<times> string)" where
  "splitString src delimiter =
     (let pos = find_first_of src delimiter in
      if pos \<noteq> npos then
        (case substr src 0 pos of
           Inl e \<Rightarrow> Inl e
         | Inr a \<Rightarrow>
             (case substr src (pos + 1) npos of
                Inl e \<Rightarrow> Inl e
              | Inr b \<Rightarrow> Inr (a, b)))
      else Inr (src, []))"

definition trimStringPair :: "string \<times> string \<Rightarrow> exn + (string \<times> string)" where
  "trimStringPair pair =
     (let lpos = find_first_not_of (snd pair) [CHR '' '', TAB];
          rpos = find_last_not_of (snd pair) [CHR '' '', TAB, CR, LF] 4
      in case substr (snd pair) lpos (rpos - lpos + 1) of
           Inl e \<Rightarrow> Inl e
         | Inr v \<Rightarrow> Inr (fst pair, v))"

text \<open>\<^verbatim>\<open>trimStringPair(splitString(header, ':'))\<close>\<close>

definition parse_header_line :: "string \<Rightarrow> exn + (string \<times> string)" where
  "parse_header_line header =
     (case splitString header (CHR '':'') of
        Inl e \<Rightarrow> Inl e
      | Inr p \<Rightarrow> trimStringPair p)"

subsection \<open>Stream extraction on the response buffer\<close>

text \<open>
  \<^verbatim>\<open>std::istream\<close> over \<^verbatim>\<open>m_response\<close>: the characters an extraction reads are removed
  from the buffer, and once \<^verbatim>\<open>failbit\<close> is set every later extraction leaves its
  variable and the buffer untouched.
\<close>

record istream =
  content :: string
  failbit :: bool

definition isspace :: "char \<Rightarrow> bool" where
  "isspace c \<longleftrightarrow> c \<in> set [CHR '' '', TAB, LF, CHR 0x0B, CHR 0x0C, CR]"

definition isdigit :: "char \<Rightarrow> bool" where
  "isdigit c \<longleftrightarrow> c \<in> set ''0123456789''"

definition digit_val :: "char \<Rightarrow> nat" where
  "digit_val c = of_char c - 48"

definition decimal :: "string \<Rightarrow> nat" where
  "decimal ds = foldl (\<lambda>n c. 10 * n + digit_val c) 0 ds"

text \<open>\<^verbatim>\<open>statusStream >> proto\<close> on a default-constructed \<^verbatim>\<open>std::string\<close>.\<close>

definition extract_string :: "istream \<Rightarrow> string \<times> istream" where
  "extract_string st =
     (if failbit st then ([], st)
      else let rest = dropWhile isspace (content st) in
        if rest = [] then ([], \<lparr>content = [], failbit = True\<rparr>)
        else (takeWhile (\<lambda>c. \<not> isspace c) rest,
              \<lparr>content = dropWhile (\<lambda>c. \<not> isspace c) rest, failbit = False\<rparr>))"

text \<open>
  \<^verbatim>\<open>statusStream >> code\<close> for \<^verbatim>\<open>unsigned code\<close> (32 bits). The variable is declared
  without an initialiser, so \<open>code0\<close> stands for whatever it holds when the extraction
  does not assign it. The conversion is the decimal one of \<^verbatim>\<open>num_get\<close>: an optional
  sign, then digits; no digit gives 0, a value past the largest \<^verbatim>\<open>unsigned\<close> gives that
  largest value, and both set \<^verbatim>\<open>failbit\<close>; a minus sign negates modulo \<open>2^32\<close>.
\<close>

definition extract_unsigned :: "32 word \<Rightarrow> istream \<Rightarrow> 32 word \<times> istream" where
  "extract_unsigned code0 st =
     (if failbit st then (code0, st)
      else let rest = dropWhile isspace (content st) in
        if rest = [] then (code0, \<lparr>content = [], failbit = True\<rparr>)
        else
          let neg = (hd rest = CHR ''-'');
              r1 = (if hd rest = CHR ''-'' \<or> hd rest = CHR ''+'' then tl rest else rest);
              ds = takeWhile isdigit r1;
              r2 = dropWhile isdigit r1;
              n = decimal ds
          in if ds = [] then (0, \<lparr>content = r2, failbit = True\<rparr>)
             else if 4294967295 < n then (4294967295, \<lparr>content = r2, failbit = True\<rparr>)
             else ((if neg then - of_nat n else of_nat n),
                   \<lparr>content = r2, failbit = False\<rparr>))"

text \<open>\<^verbatim>\<open>std::getline(stream, line)\<close>: the line without its \<^verbatim>\<open>'\n'\<close>, which is consumed.\<close>

definition getline :: "istream \<Rightarrow> string \<times> istream" where
  "getline st =
     (if failbit st then ([], st)
      else if content st = [] then ([], \<lparr>content = [], failbit = True\<rparr>)
      else (takeWhile (\<lambda>c. c \<noteq> LF) (content st),
            \<lparr>content = drop 1 (dropWhile (\<lambda>c. c \<noteq> LF) (content st)), failbit = False\<rparr>))"

text \<open>
  The three extractions of \<^verbatim>\<open>m_handleReadStatus\<close>: protocol token, status code, and
  what is left in the buffer after the message line.
\<close>

definition parse_status :: "32 word \<Rightarrow> string \<Rightarrow> string \<times> 32 word \<times> string" where
  "parse_status code0 buf =
     (let (proto, st1) = extract_string \<lparr>content = buf, failbit = False\<rparr>;
          (code, st2) = extract_unsigned code0 st1;
          (message, st3) = getline st2
      in (proto, code, content st3))"

text \<open>
  A status line as a server writes it: the protocol token, blanks, the status code in
  decimal digits with an optional sign, and the rest of the line (reason phrase and line
  terminator). \<open>status_value\<close> is the number the sign and the digits denote.
\<close>

definition status_line :: "string \<Rightarrow> string \<Rightarrow> string \<Rightarrow> string \<Rightarrow> string \<Rightarrow> string" where
  "status_line proto sp sg ds rest = proto @ sp @ sg @ ds @ rest"

definition well_formed_status :: "string \<Rightarrow> string \<Rightarrow> string \<Rightarrow> string \<Rightarrow> string \<Rightarrow> bool" where
  "well_formed_status proto sp sg ds rest \<longleftrightarrow>
     proto \<noteq> [] \<and> list_all (\<lambda>c. \<not> isspace c) proto
     \<and> sp \<noteq> [] \<and> list_all isspace sp
     \<and> (sg = [] \<or> sg = ''+'' \<or> sg = ''-'')
     \<and> ds \<noteq> [] \<and> list_all isdigit ds
     \<and> (rest = [] \<or> \<not> isdigit (hd rest))"

definition status_value :: "string \<Rightarrow> string \<Rightarrow> int" where
  "status_value sg ds = (if sg = ''-'' then - int (decimal ds) else int (decimal ds))"

subsection \<open>The header block\<close>

text \<open>
  The loop of \<^verbatim>\<open>m_handleReadHeaders\<close>:
  \<^verbatim>\<open>while (std::getline(headersStream, header) && header != "\r")\<close>. It returns what
  is left of the buffer, the header mapping and the chunked flag; an exception of
  \<^verbatim>\<open>trimStringPair\<close> leaves the loop and the handler.

  Modelled from the spec: the type of \<^verbatim>\<open>m_headers\<close> is declared in connection.h, which
  is not among the sources. The spec describes a multi-valued mapping that keeps
  duplicate names as separate entries; it is a list of pairs here, \<^verbatim>\<open>insert\<close> adding
  at the end.
\<close>

type_synonym headers = "(string \<times> string) list"

function parse_headers :: "string \<Rightarrow> headers \<Rightarrow> bool \<Rightarrow> exn + (string \<times> headers \<times> bool)" where
  "parse_headers buf hs chunked =
     (if buf = [] then Inr (buf, hs, chunked)
      else
        let header = takeWhile (\<lambda>c. c \<noteq> LF) buf;
            rest = drop 1 (dropWhile (\<lambda>c. c \<noteq> LF) buf)
        in if header = [CR] then Inr (rest, hs, chunked)
           else
             (case parse_header_line header of
                Inl e \<Rightarrow> Inl e
              | Inr pair \<Rightarrow>
                  parse_headers rest (hs @ [pair])
                    (chunked \<or> (fst pair = ''Transfer-Encoding'' \<and> snd pair = ''chunked''))))"
  by pat_completeness auto
termination
proof (relation "measure (\<lambda>(buf, hs, chunked). length buf)")
  show "wf (measure (\<lambda>(buf, hs, chunked). length buf))"
    by simp
next
  fix buf :: string and hs :: headers and chunked :: bool
    and header rest :: string and pair :: "string \<times> string"
  assume "buf \<noteq> []" and "rest = drop 1 (dropWhile (\<lambda>c. c \<noteq> LF) buf)"
  moreover have "length (dropWhile (\<lambda>c. c \<noteq> LF) buf) \<le> length buf"
    by (rule length_dropWhile_le)
  ultimately have "length rest < length buf"
    by (cases buf) auto
  then show "((rest, hs @ [pair],
               chunked \<or> (fst pair = ''Transfer-Encoding'' \<and> snd pair = ''chunked'')),
              (buf, hs, chunked)) \<in> measure (\<lambda>(buf, hs, chunked). length buf)"
    by simp
qed

declare parse_headers.simps [simp del]

subsection \<open>The connection and what it does to the outside\<close>

text \<open>
  \<^verbatim>\<open>boost::system::error_code\<close> as the handlers tell its values apart: success, the
  cancellation value \<^verbatim>\<open>operation_aborted\<close>, \<^verbatim>\<open>eof\<close>, the three values of the caster's
  own category, and any other transport error.
\<close>

datatype error_code =
    Success
  | OperationAborted
  | Eof
  | ResolveError
  | InvalidStatus
  | ConnectionTimeout
  | TransportError nat

type_synonym endpoint = nat

text \<open>
  A completion handler as \<^verbatim>\<open>std::bind\<close> builds it: the member function and the
  arguments bound at the time the operation is issued (the resolver iterator as the list
  of endpoints from its position on, the chunk length).
\<close>

datatype handler =
    HResolve
  | HConnect "endpoint list"
  | HWriteRequest
  | HWriteData
  | HReadStatus
  | HReadHeaders
  | HReadData
  | HReadChunkLength
  | HReadChunkData size_t

datatype io_op =
    AsyncResolve
  | AsyncConnect endpoint
  | AsyncWrite
  | AsyncReadUntil string
  | AsyncRead
  | AsyncReadAtLeast size_t

text \<open>
  What the consumer and the timer see, in program order: the four callbacks, a wait
  armed on the timer (with the deadline it waits for) and each entry of
  \<^verbatim>\<open>m_shutdown\<close>.
\<close>

datatype action =
    HeadersCallback
  | DataCallback string
  | EofCallback
  | ErrorCallback error_code
  | AsyncWait nat
  | Shutdown

text \<open>
  The fields of \<^verbatim>\<open>Connection\<close> the handlers read or write. \<open>socket_is_open\<close> is
  \<^verbatim>\<open>m_socket.is_open()\<close>, \<open>expires_at\<close> the deadline of \<^verbatim>\<open>m_timeouter\<close>; a callback
  slot is a flag telling whether a function was stored in it; \<open>pending\<close> is the
  asynchronous operation issued last together with its bound handler.
\<close>

record connection =
  m_timeout :: nat
  m_response :: string
  m_chunked :: bool
  m_active :: bool
  m_headers :: headers
  socket_is_open :: bool
  expires_at :: nat
  m_headersCallback :: bool
  m_dataCallback :: bool
  m_eofCallback :: bool
  m_errorCallback :: bool
  pending :: "(io_op \<times> handler) option"
  trace :: "action list"

text \<open>The state both constructors leave: no timeout, empty buffer, closed socket.\<close>

definition Connection :: connection where
  "Connection =
     \<lparr>m_timeout = 0, m_response = [], m_chunked = False, m_active = False,
      m_headers = [], socket_is_open = False, expires_at = 0,
      m_headersCallback = False, m_dataCallback = False, m_eofCallback = False,
      m_errorCallback = False, pending = None, trace = []\<rparr>"

definition emit :: "action \<Rightarrow> connection \<Rightarrow> connection" where
  "emit a s = s\<lparr>trace := trace s @ [a]\<rparr>"

text \<open>\<^verbatim>\<open>if (m_errorCallback) m_errorCallback(e);\<close> and its three siblings.\<close>

definition call_error :: "error_code \<Rightarrow> connection \<Rightarrow> connection" where
  "call_error e s = (if m_errorCallback s then emit (ErrorCallback e) s else s)"

definition call_eof :: "connection \<Rightarrow> connection" where
  "call_eof s = (if m_eofCallback s then emit EofCallback s else s)"

definition call_data :: "string \<Rightarrow> connection \<Rightarrow> connection" where
  "call_data bytes s = (if m_dataCallback s then emit (DataCallback bytes) s else s)"

definition call_headers :: "connection \<Rightarrow> connection" where
  "call_headers s = (if m_headersCallback s then emit HeadersCallback s else s)"

text \<open>\<^verbatim>\<open>m_response.size()\<close> and \<^verbatim>\<open>m_response.consume(n)\<close>, which drops at most what is there.\<close>

definition response_size :: "connection \<Rightarrow> size_t" where
  "response_size s = of_nat (length (m_response s))"

definition consume :: "size_t \<Rightarrow> connection \<Rightarrow> connection" where
  "consume n s = s\<lparr>m_response := drop (unat n) (m_response s)\<rparr>"

text \<open>
  Issuing an asynchronous operation with its handler. \<^verbatim>\<open>async_connect\<close> opens the socket
  when it is closed; nothing else in the source opens it.
\<close>

definition issue :: "io_op \<Rightarrow> handler \<Rightarrow> connection \<Rightarrow> connection" where
  "issue op h s = s\<lparr>pending := Some (op, h)\<rparr>"

definition async_connect :: "endpoint list \<Rightarrow> connection \<Rightarrow> connection" where
  "async_connect it s = issue (AsyncConnect (hd it)) (HConnect it) (s\<lparr>socket_is_open := True\<rparr>)"

definition m_shutdown :: "connection \<Rightarrow> connection" where
  "m_shutdown s =
     (let s1 = emit Shutdown (s\<lparr>m_active := False\<rparr>) in
      if \<not> socket_is_open s1 then s1
      else s1\<lparr>socket_is_open := False\<rparr>)"

text \<open>\<open>now\<close> is the reading of the clock when the handler runs.\<close>

definition restartTimer :: "nat \<Rightarrow> connection \<Rightarrow> connection" where
  "restartTimer now s =
     (if m_timeout s = 0 then s
      else emit (AsyncWait (now + m_timeout s)) (s\<lparr>expires_at := now + m_timeout s\<rparr>))"

definition handleTimeout :: "nat \<Rightarrow> error_code \<Rightarrow> connection \<Rightarrow> connection" where
  "handleTimeout now ec s =
     (if ec = OperationAborted then s
      else if \<not> socket_is_open s then s
      else
        let s1 = (if now < expires_at s then emit (AsyncWait (expires_at s)) s else s)
        in m_shutdown (call_error ConnectionTimeout s1))"

text \<open>\<^verbatim>\<open>start()\<close> and \<^verbatim>\<open>start(timeout)\<close>\<close>

definition start :: "connection \<Rightarrow> connection" where
  "start s = issue AsyncResolve HResolve s"

definition start_timeout :: "nat \<Rightarrow> nat \<Rightarrow> connection \<Rightarrow> connection" where
  "start_timeout timeout now s = restartTimer now (start (s\<lparr>m_timeout := timeout\<rparr>))"

subsection \<open>The chunk-size line\<close>

text \<open>
  Modelled from the spec: \<^verbatim>\<open>Caster::parseChunkLength\<close> is defined outside connection.cpp
  and is not among the sources. The spec gives its contract: on a buffer that begins with
  a hexadecimal length token followed by a line terminator it returns the count of bytes
  consumed (the hex digits plus the two bytes of the terminator) and the parsed length.
  On any other buffer the spec leaves the result open; the theorems below use the
  definition only on buffers of that form.
\<close>

definition ishex :: "char \<Rightarrow> bool" where
  "ishex c \<longleftrightarrow> c \<in> set ''0123456789abcdefABCDEF''"

definition hex_digit_val :: "char \<Rightarrow> nat" where
  "hex_digit_val c =
     (if isdigit c then of_char c - 48
      else if c \<in> set ''abcdef'' then of_char c - 87
      else of_char c - 55)"

definition hexadecimal :: "string \<Rightarrow> nat" where
  "hexadecimal ds = foldl (\<lambda>n c. 16 * n + hex_digit_val c) 0 ds"

definition parseChunkLength :: "string \<Rightarrow> size_t \<times> size_t" where
  "parseChunkLength buf =
     (let ds = takeWhile ishex buf
      in (of_nat (length ds + 2), of_nat (hexadecimal ds)))"

subsection \<open>The completion handlers\<close>

text \<open>
  Each handler takes the clock reading, the completion's error value, its bound
  arguments and the connection, and returns the connection it leaves. Logging is left
  out. \<^verbatim>\<open>m_prepareRequest\<close> fills \<^verbatim>\<open>m_request\<close>, which no handler reads; it is
  not represented.
\<close>

definition m_handleResolve ::
    "nat \<Rightarrow> error_code \<Rightarrow> endpoint list \<Rightarrow> connection \<Rightarrow> connection" where
  "m_handleResolve now error it s0 =
     (let s = restartTimer now s0 in
      if error = Success then
        (if it \<noteq> [] then async_connect it s
         else m_shutdown (call_error ResolveError s))
      else m_shutdown (call_error error s))"

definition m_handleConnect ::
    "nat \<Rightarrow> error_code \<Rightarrow> endpoint list \<Rightarrow> connection \<Rightarrow> connection" where
  "m_handleConnect now error it s0 =
     (let s = restartTimer now s0 in
      if error = Success then issue AsyncWrite HWriteRequest s
      else
        (if tl it \<noteq> [] then async_connect (tl it) s
         else m_shutdown (call_error error s)))"

definition m_handleWriteRequest :: "nat \<Rightarrow> error_code \<Rightarrow> connection \<Rightarrow> connection" where
  "m_handleWriteRequest now error s0 =
     (let s = restartTimer now s0 in
      if error = Success then issue (AsyncReadUntil CRLF) HReadStatus s
      else if error \<noteq> OperationAborted then m_shutdown (call_error error s)
      else s)"

definition m_handleWriteData :: "nat \<Rightarrow> error_code \<Rightarrow> connection \<Rightarrow> connection" where
  "m_handleWriteData now error s0 =
     (let s = restartTimer now s0 in
      if error \<noteq> Success \<and> error \<noteq> OperationAborted then m_shutdown (call_error error s)
      else s)"

definition m_handleReadStatus ::
    "nat \<Rightarrow> 32 word \<Rightarrow> error_code \<Rightarrow> connection \<Rightarrow> connection" where
  "m_handleReadStatus now code0 error s0 =
     (let s = restartTimer now s0 in
      if error = Success then
        (let (proto, code, rest) = parse_status code0 (m_response s);
             s1 = s\<lparr>m_response := rest\<rparr>
         in if code \<noteq> 200 then m_shutdown (call_error InvalidStatus s1)
            else if proto = ''ICY'' then issue AsyncRead HReadData (s1\<lparr>m_active := True\<rparr>)
            else issue (AsyncReadUntil (CRLF @ CRLF)) HReadHeaders s1)
      else if error \<noteq> OperationAborted then m_shutdown (call_error error s)
      else s)"

definition m_handleReadHeaders :: "nat \<Rightarrow> error_code \<Rightarrow> connection \<Rightarrow> exn + connection" where
  "m_handleReadHeaders now error s0 =
     (let s = restartTimer now s0 in
      if error = Success then
        (case parse_headers (m_response s) (m_headers s) (m_chunked s) of
           Inl e \<Rightarrow> Inl e
         | Inr (rest, hs, chunked) \<Rightarrow>
             (let s1 = call_headers (s\<lparr>m_response := rest, m_headers := hs, m_chunked := chunked\<rparr>);
                  s2 = s1\<lparr>m_active := True\<rparr>
              in if m_chunked s2 then Inr (issue (AsyncReadUntil CRLF) HReadChunkLength s2)
                 else Inr (issue AsyncRead HReadData s2)))
      else if error \<noteq> OperationAborted then Inr (m_shutdown (call_error error s))
      else Inr s)"

definition m_handleReadData :: "nat \<Rightarrow> error_code \<Rightarrow> connection \<Rightarrow> connection" where
  "m_handleReadData now error s0 =
     (let s = restartTimer now s0;
          s1 = (if response_size s \<noteq> 0
                then consume (response_size s) (call_data (m_response s) s)
                else s)
      in if error = Success then issue (AsyncReadAtLeast 1) HReadData s1
         else if error = Eof then m_shutdown (call_eof s1)
         else if error \<noteq> OperationAborted then m_shutdown (call_error error s1)
         else s1)"

definition m_handleReadChunkData ::
    "nat \<Rightarrow> error_code \<Rightarrow> size_t \<Rightarrow> connection \<Rightarrow> connection" where
  "m_handleReadChunkData now error size' s0 =
     (let s = restartTimer now s0;
          s1 = (if 0 < size' then
                  (if response_size s < size' then call_data (m_response s) s
                   else call_data (take (unat size') (m_response s)) s)
                else s)
      in if error = Success then
           (if response_size s1 < size' then
              (let remainder = size' + 2 - response_size s1;
                   s2 = consume (response_size s1) s1
               in issue (AsyncReadAtLeast remainder) (HReadChunkData (remainder - 2)) s2)
            else issue (AsyncReadUntil CRLF) HReadChunkLength (consume (size' + 2) s1))
         else if error = Eof then m_shutdown (call_eof s1)
         else if error \<noteq> OperationAborted then m_shutdown (call_error error s1)
         else s1)"

definition m_handleReadChunkLength :: "nat \<Rightarrow> error_code \<Rightarrow> connection \<Rightarrow> connection" where
  "m_handleReadChunkLength now error s0 =
     (let s = restartTimer now s0 in
      if error = Success then
        (let (n, length') = parseChunkLength (m_response s);
             s1 = consume n s
         in if length' = 0 then m_shutdown (call_eof s1)
            else if response_size s1 < length' + 2 then
              issue (AsyncReadAtLeast (length' + 2 - response_size s1)) (HReadChunkData length') s1
            else m_handleReadChunkData now Success length' s1)
      else if error = Eof then m_shutdown (call_eof s)
      else if error \<noteq> OperationAborted then m_shutdown (call_error error s)
      else s)"

subsection \<open>The reactor\<close>

text \<open>
  A completion as the reactor hands it to a handler: the clock, the error value, the
  endpoints a resolve found, the bytes a read appended to \<^verbatim>\<open>m_response\<close>, and the
  content of the uninitialised \<^verbatim>\<open>code\<close> of the status handler.
\<close>

record completion =
  clock :: nat
  err :: error_code
  endpoints :: "endpoint list"
  received :: string
  junk :: "32 word"

datatype event = Io completion | Timer nat error_code

fun invoke :: "handler \<Rightarrow> completion \<Rightarrow> connection \<Rightarrow> exn + connection" where
  "invoke HResolve c s = Inr (m_handleResolve (clock c) (err c) (endpoints c) s)"
| "invoke (HConnect it) c s = Inr (m_handleConnect (clock c) (err c) it s)"
| "invoke HWriteRequest c s = Inr (m_handleWriteRequest (clock c) (err c) s)"
| "invoke HWriteData c s = Inr (m_handleWriteData (clock c) (err c) s)"
| "invoke HReadStatus c s = Inr (m_handleReadStatus (clock c) (junk c) (err c) s)"
| "invoke HReadHeaders c s = m_handleReadHeaders (clock c) (err c) s"
| "invoke HReadData c s = Inr (m_handleReadData (clock c) (err c) s)"
| "invoke HReadChunkLength c s = Inr (m_handleReadChunkLength (clock c) (err c) s)"
| "invoke (HReadChunkData size') c s = Inr (m_handleReadChunkData (clock c) (err c) size' s)"

fun is_read :: "io_op \<Rightarrow> bool" where
  "is_read (AsyncReadUntil d) = True"
| "is_read AsyncRead = True"
| "is_read (AsyncReadAtLeast n) = True"
| "is_read op = False"

text \<open>
  One step of the reactor: a timer wait fires, or the pending operation completes and its
  handler runs (a read has appended what it received first). With nothing pending a
  completion has no handler to run.
\<close>

fun deliver :: "event \<Rightarrow> connection \<Rightarrow> exn + connection" where
  "deliver (Timer now ec) s = Inr (handleTimeout now ec s)"
| "deliver (Io c) s =
     (case pending s of
        None \<Rightarrow> Inr s
      | Some (op, h) \<Rightarrow>
          invoke h c
            (s\<lparr>pending := None,
               m_response := m_response s @ (if is_read op then received c else [])\<rparr>))"

fun run :: "event list \<Rightarrow> connection \<Rightarrow> exn + connection" where
  "run [] s = Inr s"
| "run (e # es) s = (case deliver e s of Inl x \<Rightarrow> Inl x | Inr s' \<Rightarrow> run es s')"

subsection \<open>Predicates on connections and traces\<close>

text \<open>
  The plain stream: nothing is pending or the pending handler is the plain-body one, and
  the header mapping, the chunked flag and the number of headers-ready callbacks are the
  given ones.
\<close>

definition plain_stream :: "headers \<Rightarrow> bool \<Rightarrow> nat \<Rightarrow> connection \<Rightarrow> bool" where
  "plain_stream hs ch n s \<longleftrightarrow>
     (pending s = None \<or> (\<exists>op. pending s = Some (op, HReadData)))
     \<and> m_headers s = hs \<and> m_chunked s = ch
     \<and> count_list (trace s) HeadersCallback = n"

text \<open>The two callbacks that end a stream.\<close>

fun terminal :: "action \<Rightarrow> bool" where
  "terminal EofCallback = True"
| "terminal (ErrorCallback e) = True"
| "terminal a = False"

text \<open>
  Reading a trace from the left: a terminal callback must be followed at once by
  \<open>Shutdown\<close>, and \<open>Shutdown\<close> occurs nowhere else.
\<close>

datatype pairing = Idle | Awaiting | Broken

fun pair_step :: "pairing \<Rightarrow> action \<Rightarrow> pairing" where
  "pair_step Idle a = (if terminal a then Awaiting else if a = Shutdown then Broken else Idle)"
| "pair_step Awaiting a = (if a = Shutdown then Idle else Broken)"
| "pair_step Broken a = Broken"

definition paired :: "action list \<Rightarrow> bool" where
  "paired t \<longleftrightarrow> foldl pair_step Idle t = Idle"

text \<open>The terminal callbacks invoked before \<^verbatim>\<open>m_shutdown\<close> is entered for the first time.\<close>

definition terminal_before_shutdown :: "action list \<Rightarrow> action list" where
  "terminal_before_shutdown t = filter terminal (takeWhile (\<lambda>a. a \<noteq> Shutdown) t)"

text \<open>
  The handlers that run before the header block is parsed, and the connections in which
  the header mapping and the chunked flag are still as constructed as long as one of
  them is pending.
\<close>

fun before_body :: "handler \<Rightarrow> bool" where
  "before_body HResolve = True"
| "before_body (HConnect it) = True"
| "before_body HWriteRequest = True"
| "before_body HReadStatus = True"
| "before_body HReadHeaders = True"
| "before_body h = False"

definition unparsed :: "connection \<Rightarrow> bool" where
  "unparsed s \<longleftrightarrow>
     (m_headers s = [] \<and> \<not> m_chunked s)
     \<or> (\<exists>op h. pending s = Some (op, h) \<and> \<not> before_body h)
     \<or> pending s = None"

text \<open>
  A connection whose consumer stored the end-of-stream and the error callback and whose
  trace pairs every terminal callback with a shutdown.
\<close>

definition notifying :: "connection \<Rightarrow> bool" where
  "notifying s \<longleftrightarrow> m_eofCallback s \<and> m_errorCallback s \<and> paired (trace s)"

text \<open>What the consumer sees of a trace: everything but the timer waits.\<close>

fun is_wait :: "action \<Rightarrow> bool" where
  "is_wait (AsyncWait d) = True"
| "is_wait a = False"

definition callbacks :: "action list \<Rightarrow> action list" where
  "callbacks t = filter (\<lambda>a. \<not> is_wait a) t"

text \<open>The bytes handed to the data callback, in order.\<close>

fun delivered :: "action list \<Rightarrow> string" where
  "delivered [] = []"
| "delivered (DataCallback bytes # t) = bytes @ delivered t"
| "delivered (a # t) = delivered t"

subsection \<open>The transport and a chunked body on the wire\<close>

text \<open>
  Modelled from the spec: the transport is boost::asio, outside the sources. The spec
  gives the contract the connection relies on: a read until a delimiter succeeds once
  the delimiter is buffered and leaves the bytes past it buffered; a read of at least
  \<open>n\<close> bytes succeeds once \<open>n\<close> bytes have been appended. Both constructors give
  \<^verbatim>\<open>m_response\<close> a maximum size of 1024 bytes (\<^verbatim>\<open>m_response(1024)\<close>), and a read
  appends no more than the room that is left: a read of at least \<open>n\<close> bytes, and the
  read without a completion condition, complete without error when the buffer is full;
  a read until a delimiter fails with \<^verbatim>\<open>not_found\<close> when the buffer is full and does
  not hold the delimiter.

  Here \<open>wire\<close> holds the bytes of the stream not yet received, and \<open>extra\<close> is how
  many bytes beyond the fewest possible the transport happens to append. A read that the
  rest of the stream cannot satisfy appends what is left and fails with \<^verbatim>\<open>eof\<close>.
\<close>

definition max_size :: nat where
  "max_size = 1024"

definition not_found :: error_code where
  "not_found = TransportError 3"

fun has_infix :: "string \<Rightarrow> string \<Rightarrow> bool" where
  "has_infix d [] = (d = [])"
| "has_infix d (c # cs) = (take (length d) (c # cs) = d \<or> has_infix d cs)"

text \<open>The fewest bytes of the wire after which the delimiter is buffered.\<close>

fun need_until :: "string \<Rightarrow> string \<Rightarrow> string \<Rightarrow> nat option" where
  "need_until d buf [] = (if has_infix d buf then Some 0 else None)"
| "need_until d buf (c # wire) =
     (if has_infix d buf then Some 0
      else map_option Suc (need_until d (buf @ [c]) wire))"

text \<open>
  The error value of a completion and the number of bytes it appended, for the operation
  \<open>op\<close> issued with \<open>buf\<close> buffered.
\<close>

fun grant :: "io_op \<Rightarrow> string \<Rightarrow> string \<Rightarrow> nat \<Rightarrow> error_code \<times> nat" where
  "grant (AsyncReadUntil d) buf wire extra =
     (let room = max_size - length buf in
      case need_until d buf wire of
        None \<Rightarrow> if room \<le> length wire then (not_found, room) else (Eof, length wire)
      | Some k \<Rightarrow>
          if room < k then (not_found, room)
          else (Success, if k = 0 then 0 else min (min (k + extra) room) (length wire)))"
| "grant (AsyncReadAtLeast n) buf wire extra =
     (let room = max_size - length buf in
      if length wire < min (unat n) room then (Eof, length wire)
      else (Success, if n = 0 then 0 else min (min (unat n + extra) room) (length wire)))"
| "grant AsyncRead buf wire extra =
     (let room = max_size - length buf in
      if room \<le> length wire then (Success, room) else (Eof, length wire))"
| "grant op buf wire extra = (Success, 0)"

text \<open>
  The reactor fed from the wire: each entry of the schedule is one completion of the
  pending operation, with the clock reading and the extra bytes of that completion. It
  stops when nothing is pending.
\<close>

fun serve :: "(nat \<times> nat) list \<Rightarrow> string \<Rightarrow> connection \<Rightarrow> exn + (connection \<times> string)" where
  "serve [] wire s = Inr (s, wire)"
| "serve ((now, extra) # sched) wire s =
     (case pending s of
        None \<Rightarrow> Inr (s, wire)
      | Some (op, h) \<Rightarrow>
          (let (e, k) = grant op (m_response s) wire extra in
           case deliver (Io \<lparr>clock = now, err = e, endpoints = [],
                             received = take k wire, junk = 0\<rparr>) s of
             Inl x \<Rightarrow> Inl x
           | Inr s' \<Rightarrow> serve sched (drop k wire) s'))"

text \<open>
  A chunk is its size line (hex digits), the line terminator, the payload and the
  closing terminator; it is well formed when the digits denote the length of the
  payload, which is not empty. The body ends with a size line denoting 0.
\<close>

definition chunk :: "string \<times> string \<Rightarrow> string" where
  "chunk c = fst c @ CRLF @ snd c @ CRLF"

definition size_line :: "string \<Rightarrow> nat \<Rightarrow> bool" where
  "size_line ds n \<longleftrightarrow> ds \<noteq> [] \<and> list_all ishex ds \<and> hexadecimal ds = n"

definition well_formed_chunk :: "string \<times> string \<Rightarrow> bool" where
  "well_formed_chunk c \<longleftrightarrow> size_line (fst c) (length (snd c)) \<and> snd c \<noteq> []"

definition chunked_body :: "(string \<times> string) list \<Rightarrow> string \<Rightarrow> string \<Rightarrow> string" where
  "chunked_body cs zero trailer = concat (map chunk cs) @ zero @ CRLF @ trailer"

text \<open>The connection once the headers announced a chunked body: waiting for a size line.\<close>

definition awaiting_chunk :: "connection \<Rightarrow> bool" where
  "awaiting_chunk s \<longleftrightarrow> pending s = Some (AsyncReadUntil CRLF, HReadChunkLength)"

text \<open>
  A chunk the buffer can take. Its size line fits in \<^verbatim>\<open>m_response\<close> together with the
  terminator. Its payload is read in pieces of \<open>max_size\<close> bytes and a last, shorter
  piece, and the terminator fits in the buffer together with that last piece: the length
  of the payload is neither a multiple of \<open>max_size\<close> nor one byte short of one.
\<close>

definition fits_buffer :: "string \<times> string \<Rightarrow> bool" where
  "fits_buffer c \<longleftrightarrow>
     length (fst c) + 2 \<le> max_size
     \<and> length (snd c) mod max_size \<noteq> 0
     \<and> length (snd c) mod max_size \<noteq> max_size - 1"

text \<open>
  The number of completions that is enough for a body: for each chunk one for the size
  line, one for each full buffer of payload and one for the rest; one for the last size
  line.
\<close>

definition completions :: "(string \<times> string) list \<Rightarrow> nat" where
  "completions cs = sum_list (map (\<lambda>c. length (snd c) div max_size + 2) cs) + 1"

subsection \<open>Sample connections and completions\<close>

text \<open>A connection as constructed, with a function stored in each callback slot.\<close>

definition listener :: connection where
  "listener = Connection\<lparr>m_headersCallback := True, m_dataCallback := True,
     m_eofCallback := True, m_errorCallback := True\<rparr>"

text \<open>The same connection once the request is written: open, waiting for the status line.\<close>

definition awaiting_status :: connection where
  "awaiting_status = listener\<lparr>socket_is_open := True,
     pending := Some (AsyncReadUntil CRLF, HReadStatus)\<rparr>"

text \<open>A successful completion at clock 0 that appended \<open>bytes\<close>, or found \<open>eps\<close>.\<close>

definition arrival :: "string \<Rightarrow> completion" where
  "arrival bytes = \<lparr>clock = 0, err = Success, endpoints = [], received = bytes, junk = 0\<rparr>"

definition resolved :: "endpoint list \<Rightarrow> completion" where
  "resolved eps = \<lparr>clock = 0, err = Success, endpoints = eps, received = [], junk = 0\<rparr>"

definition failure :: "error_code \<Rightarrow> completion" where
  "failure e = \<lparr>clock = 0, err = e, endpoints = [], received = [], junk = 0\<rparr>"

text \<open>The listener once the headers announced a chunked body: open, active, waiting for a size line.\<close>

definition streaming :: connection where
  "streaming = listener\<lparr>m_chunked := True, m_active := True, socket_is_open := True,
     pending := Some (AsyncReadUntil CRLF, HReadChunkLength)\<rparr>"

text \<open>Two chunks and the closing zero chunk.\<close>

definition hello_body :: string where
  "hello_body = chunked_body [(''5'', ''HELLO''), (''3'', ''abc'')] ''0'' CRLF"

text \<open>
  A response whose first chunk has a payload of 1024 bytes (\<^verbatim>\<open>400\<close> in hexadecimal),
  as the server sends it after the request.
\<close>

definition long_response :: string where
  "long_response = ''HTTP/1.1 200 OK'' @ CRLF @ ''Transfer-Encoding: chunked'' @ CRLF @ CRLF
     @ chunked_body [(''400'', replicate 1024 (CHR ''A'')), (''3'', ''abc'')] ''0'' CRLF"

section \<open>Properties\<close>

lemmas char_defs = CR_def LF_def TAB_def CRLF_def

lemmas string_defs = find_first_of_def find_first_not_of_def find_last_not_of_def to_pos_def
  substr_def npos_def splitString_def trimStringPair_def parse_header_line_def

lemmas effect_defs = emit_def call_error_def call_eof_def call_data_def call_headers_def
  response_size_def consume_def issue_def async_connect_def m_shutdown_def restartTimer_def

lemmas sample_defs = listener_def awaiting_status_def arrival_def resolved_def failure_def
  Connection_def

lemmas status_defs = parse_status_def extract_string_def extract_unsigned_def getline_def
  isspace_def isdigit_def decimal_def digit_val_def

lemmas handler_defs = m_handleResolve_def m_handleConnect_def m_handleWriteRequest_def
  m_handleReadStatus_def m_handleReadData_def m_handleReadChunkLength_def
  m_handleReadChunkData_def handleTimeout_def start_timeout_def start_def

lemmas transport_defs = chunk_def size_line_def well_formed_chunk_def chunked_body_def
  awaiting_chunk_def ishex_def hex_digit_val_def hexadecimal_def isdigit_def
  parseChunkLength_def

subsection \<open>Header lines\<close>

lemma first_pos_None: "first_pos P i cs = None \<longleftrightarrow> (\<forall>c\<in>set cs. \<not> P c)"
  by (induction cs arbitrary: i) auto

text \<open>
  A line without a colon is split into the line and an empty value; trimming the empty
  value then asks for the substring at \<^verbatim>\<open>npos\<close>, which throws.
\<close>

lemma no_colon_throws:
  assumes "CHR '':'' \<notin> set line"
  shows "parse_header_line line = Inl OutOfRange"
proof -
  have "first_pos (\<lambda>c. c = CHR '':'') 0 line = None"
    using assms by (auto simp add: first_pos_None)
  then show ?thesis
    by (simp add: string_defs Let_def)
qed

text \<open>The same for any value made of spaces and tabs only.\<close>

lemma blank_value_throws:
  assumes "set v \<subseteq> {CHR '' '', TAB}" and "length v < 2 ^ 64 - 1"
  shows "trimStringPair (k, v) = Inl OutOfRange"
proof -
  have "first_pos (\<lambda>c. c \<notin> set [CHR '' '', TAB]) 0 v = None"
    using assms(1) by (auto simp add: first_pos_None)
  then show ?thesis
    using assms(2) by (simp add: string_defs Let_def)
qed

text \<open>
  A header block with two well-formed lines: both are stored, trimmed, and the chunked
  flag is set.
\<close>

lemma headers_example:
  "m_handleReadHeaders 0 Success
     (listener\<lparr>m_response := ''Content-Type: audio/mpeg'' @ CRLF
                     @ ''Transfer-Encoding: chunked'' @ CRLF @ CRLF @ ''5''\<rparr>)
   = Inr (listener\<lparr>m_response := ''5'', m_chunked := True, m_active := True,
            m_headers := [(''Content-Type'', ''audio/mpeg''), (''Transfer-Encoding'', ''chunked'')],
            pending := Some (AsyncReadUntil CRLF, HReadChunkLength),
            trace := [HeadersCallback]\<rparr>)"
  by (simp add: m_handleReadHeaders_def parse_headers.simps sample_defs effect_defs
      string_defs char_defs Let_def)

text \<open>
  Claim C6 (a header line without a colon is stored as the whole line with an empty
  value, and parsing completes). On the header block \<^verbatim>\<open>Foo\r\n\r\n\<close> the handler does
  not complete: \<^verbatim>\<open>trimStringPair\<close> throws \<^verbatim>\<open>std::out_of_range\<close> before anything is
  inserted into the header mapping.
\<close>

theorem headers_line_without_colon_throws:
  "m_handleReadHeaders 0 Success (Connection\<lparr>m_response := ''Foo'' @ CRLF @ CRLF\<rparr>)
     = Inl OutOfRange"
  by (simp add: m_handleReadHeaders_def parse_headers.simps Connection_def effect_defs
      string_defs char_defs Let_def)

text \<open>
  Claim C10 (trimming is total: the start position is at most the length of the value,
  also for a value of spaces and tabs only). For the value of one space and one tab
  \<^verbatim>\<open>find_first_not_of\<close> returns \<^verbatim>\<open>npos\<close>, which is past the end of the value, and
  \<^verbatim>\<open>substr\<close> throws.
\<close>

theorem trim_blank_value_throws:
  "find_first_not_of [CHR '' '', TAB] [CHR '' '', TAB] = npos
   \<and> length [CHR '' '', TAB] < unat npos
   \<and> trimStringPair (''Foo'', [CHR '' '', TAB]) = Inl OutOfRange"
  by (simp add: string_defs char_defs Let_def)

subsection \<open>The timeout supervisor\<close>

text \<open>A firing with the deadline still ahead, in general.\<close>

lemma handleTimeout_stale:
  assumes "ec \<noteq> OperationAborted" and "socket_is_open s" and "now < expires_at s"
    and "m_errorCallback s"
  shows "handleTimeout now ec s
     = s\<lparr>m_active := False, socket_is_open := False,
         trace := trace s @ [AsyncWait (expires_at s), ErrorCallback ConnectionTimeout, Shutdown]\<rparr>"
  using assms by (simp add: handleTimeout_def effect_defs Let_def)

text \<open>
  Claim C1 (a firing of the timer wait while the deadline lies in the future re-arms the
  wait, does not report \<^verbatim>\<open>ConnectionTimeout\<close> and does not shut down). With the socket
  open, the deadline at 10 and the clock at 5, \<^verbatim>\<open>handleTimeout\<close> arms the new wait and
  then goes on to the error callback and \<^verbatim>\<open>m_shutdown\<close>: the branch that re-arms does
  not return.
\<close>

theorem stale_timeout_still_reports:
  "trace (handleTimeout 5 Success
       (Connection\<lparr>socket_is_open := True, expires_at := 10, m_errorCallback := True\<rparr>))
     = [AsyncWait 10, ErrorCallback ConnectionTimeout, Shutdown]
   \<and> \<not> socket_is_open (handleTimeout 5 Success
       (Connection\<lparr>socket_is_open := True, expires_at := 10, m_errorCallback := True\<rparr>))"
  by (simp add: handleTimeout_def Connection_def effect_defs Let_def)

subsection \<open>Sizes\<close>

lemma unat_size_t_bound: "unat (x :: size_t) < 18446744073709551616"
  using unsigned_less [of x] by simp

lemma unat_of_nat_size_t: "n < 18446744073709551616 \<Longrightarrow> unat (of_nat n :: size_t) = n"
  by (simp add: unat_of_nat)

lemma of_nat_size_t_eq_0:
  "n < 18446744073709551616 \<Longrightarrow> ((of_nat n :: size_t) = 0) = (n = 0)"
proof
  assume "(of_nat n :: size_t) = 0"
  then have "unat (of_nat n :: size_t) = 0" by simp
  moreover assume "n < 18446744073709551616"
  ultimately show "n = 0" by (simp add: unat_of_nat_size_t)
qed simp

lemma of_nat_less_size_t:
  assumes "n < unat (L :: size_t)"
  shows "(of_nat n :: size_t) < L"
proof -
  have "n < 18446744073709551616"
    using assms unat_size_t_bound [of L] by linarith
  then show ?thesis
    using assms by (simp add: word_less_nat_alt unat_of_nat_size_t)
qed

lemma remainder_arith:
  fixes L :: size_t
  assumes "B < unat L"
  shows "unat (L + 2 - of_nat B - 2) = unat L - B"
proof -
  have "L + 2 - of_nat B - 2 = L - of_nat B"
    by simp
  moreover have "(of_nat B :: size_t) \<le> L"
    using of_nat_less_size_t [OF assms] by simp
  moreover have "unat (of_nat B :: size_t) = B"
    using assms unat_size_t_bound [of L] by (simp add: unat_of_nat_size_t)
  ultimately show ?thesis
    by (simp add: unat_sub)
qed

lemma shortfall_mod:
  fixes L :: size_t
  assumes "B < unat L"
  shows "unat (L + 2 - of_nat B) = (unat L + 2 - B) mod 18446744073709551616"
proof -
  have e: "L + 2 - of_nat B = (L - of_nat B) + 2"
    by simp
  have "(of_nat B :: size_t) \<le> L"
    using of_nat_less_size_t [OF assms] by simp
  then have "unat (L - of_nat B) = unat L - unat (of_nat B :: size_t)"
    by (rule unat_sub)
  moreover have "unat (of_nat B :: size_t) = B"
    using assms unat_size_t_bound [of L] by (simp add: unat_of_nat_size_t)
  ultimately have d: "unat (L - of_nat B) = unat L - B"
    by simp
  have "unat ((L - of_nat B) + 2) = (unat (L - of_nat B) + unat (2 :: size_t)) mod 2 ^ LENGTH(64)"
    by (rule unat_word_ariths)
  also have "\<dots> = (unat L - B + 2) mod 18446744073709551616"
    unfolding d by simp
  also have "unat L - B + 2 = unat L + 2 - B"
    using assms by simp
  finally show ?thesis
    unfolding e .
qed

subsection \<open>What restartTimer leaves alone\<close>

lemma restartTimer_simps [simp]:
  "m_response (restartTimer now s) = m_response s"
  "m_headersCallback (restartTimer now s) = m_headersCallback s"
  "m_dataCallback (restartTimer now s) = m_dataCallback s"
  "m_eofCallback (restartTimer now s) = m_eofCallback s"
  "m_errorCallback (restartTimer now s) = m_errorCallback s"
  "pending (restartTimer now s) = pending s"
  "m_headers (restartTimer now s) = m_headers s"
  "m_chunked (restartTimer now s) = m_chunked s"
  "m_active (restartTimer now s) = m_active s"
  "socket_is_open (restartTimer now s) = socket_is_open s"
  by (simp_all add: restartTimer_def emit_def)

lemma restartTimer_trace:
  "trace (restartTimer now s)
     = trace s @ (if m_timeout s = 0 then [] else [AsyncWait (now + m_timeout s)])"
  by (simp add: restartTimer_def emit_def)

subsection \<open>The partial-delivery branch of the chunk-body handler\<close>

text \<open>What the handler leaves in the partial-delivery branch.\<close>

lemma partial_delivery_state:
  fixes L :: size_t
  assumes "length (m_response s) < unat L"
  shows "m_handleReadChunkData now Success L s
     = (call_data (m_response s) (restartTimer now s))
        \<lparr>m_response := [],
         pending := Some (AsyncReadAtLeast (L + 2 - of_nat (length (m_response s))),
                          HReadChunkData (L + 2 - of_nat (length (m_response s)) - 2))\<rparr>"
proof -
  have lt: "(of_nat (length (m_response s)) :: size_t) < L"
    using assms by (rule of_nat_less_size_t)
  then have pos: "0 < L"
    by (simp add: word_greater_zero_iff) (metis word_not_simps(1))
  have len: "unat (of_nat (length (m_response s)) :: size_t) = length (m_response s)"
    using assms unat_size_t_bound [of L] by (simp add: unat_of_nat_size_t)
  show ?thesis
    using lt pos len
    by (simp add: m_handleReadChunkData_def Let_def call_data_def emit_def response_size_def
        consume_def issue_def)
qed

text \<open>
  Claim C5, as stated (with fewer than the declared length buffered, the buffered bytes
  are delivered to the data callback without being consumed from the byte queue). With
  \<^verbatim>\<open>AB\<close> buffered and a declared length of 5 the handler delivers \<^verbatim>\<open>AB\<close> and leaves
  the byte queue empty: line 376 consumes what was delivered.
\<close>

theorem partial_delivery_consumes:
  "trace (m_handleReadChunkData 0 Success 5
       (Connection\<lparr>m_response := ''AB'', m_dataCallback := True\<rparr>)) = [DataCallback ''AB'']
   \<and> m_response (m_handleReadChunkData 0 Success 5
       (Connection\<lparr>m_response := ''AB'', m_dataCallback := True\<rparr>)) = []"
  by (simp add: m_handleReadChunkData_def Connection_def effect_defs Let_def)

text \<open>
  Claim C5, amended: in the partial-delivery branch the handler restarts the timer,
  delivers the buffered bytes to the data callback, consumes all of them, and issues a
  read of at least \<open>L + 2 - B\<close> bytes bound to the chunk-body handler with the length
  \<open>L + 2 - B - 2\<close>. Nothing else of the connection changes.
\<close>

theorem partial_delivery:
  fixes L :: size_t
  assumes "length (m_response s) < unat L"
  shows "m_handleReadChunkData now Success L s
     = (call_data (m_response s) (restartTimer now s))
        \<lparr>m_response := [],
         pending := Some (AsyncReadAtLeast (L + 2 - of_nat (length (m_response s))),
                          HReadChunkData (L + 2 - of_nat (length (m_response s)) - 2))\<rparr>"
  using assms by (rule partial_delivery_state)

theorem partial_delivery_witness:
  "length (m_response (Connection\<lparr>m_response := ''AB'', m_dataCallback := True\<rparr>))
     < unat (5 :: size_t)
   \<and> m_handleReadChunkData 0 Success 5 (Connection\<lparr>m_response := ''AB'', m_dataCallback := True\<rparr>)
     = Connection\<lparr>m_response := [], m_dataCallback := True,
          pending := Some (AsyncReadAtLeast 5, HReadChunkData 3),
          trace := [DataCallback ''AB'']\<rparr>"
proof -
  have h: "length (m_response (Connection\<lparr>m_response := ''AB'', m_dataCallback := True\<rparr>))
      < unat (5 :: size_t)"
    by (simp add: Connection_def)
  show ?thesis
    using h partial_delivery [OF h, of 0]
    by (simp add: Connection_def effect_defs)
qed

text \<open>
  Claim C9: in the partial-delivery branch, with \<open>B\<close> bytes buffered and \<open>B\<close> below the
  declared length \<open>L\<close>, the follow-up read asks for \<open>L + 2 - B\<close> bytes (in \<^verbatim>\<open>size_t\<close>
  arithmetic, that is modulo \<open>2^64\<close>), the length bound to the next chunk-body invocation
  is that shortfall minus 2, and this length is the number \<open>L - B\<close>: the \<open>B\<close> buffered
  bytes are what the data callback was given, so \<open>L - B\<close> payload bytes of the chunk are
  still to be delivered.
\<close>

theorem partial_delivery_lengths:
  fixes L :: size_t
  assumes "length (m_response s) < unat L"
  shows "pending (m_handleReadChunkData now Success L s)
           = Some (AsyncReadAtLeast (L + 2 - of_nat (length (m_response s))),
                   HReadChunkData (L + 2 - of_nat (length (m_response s)) - 2))
     \<and> unat (L + 2 - of_nat (length (m_response s)))
           = (unat L + 2 - length (m_response s)) mod 18446744073709551616
     \<and> unat (L + 2 - of_nat (length (m_response s)) - 2) = unat L - length (m_response s)
     \<and> trace (m_handleReadChunkData now Success L s)
           = trace (call_data (m_response s) (restartTimer now s))"
  using remainder_arith [OF assms] shortfall_mod [OF assms]
  by (simp add: partial_delivery_state [OF assms])

theorem partial_delivery_lengths_witness:
  "length (m_response (Connection\<lparr>m_response := ''AB'', m_dataCallback := True\<rparr>))
     < unat (5 :: size_t)
   \<and> pending (m_handleReadChunkData 0 Success 5
        (Connection\<lparr>m_response := ''AB'', m_dataCallback := True\<rparr>))
       = Some (AsyncReadAtLeast 5, HReadChunkData 3)
   \<and> unat (3 :: size_t) = 5 - 2"
proof -
  have h: "length (m_response (Connection\<lparr>m_response := ''AB'', m_dataCallback := True\<rparr>))
      < unat (5 :: size_t)"
    by (simp add: Connection_def)
  show ?thesis
    using h partial_delivery_lengths [OF h, of 0]
    by (simp add: Connection_def)
qed

subsection \<open>Cancelled completions\<close>

text \<open>
  Claim C2, as stated (a completion carrying \<^verbatim>\<open>operation_aborted\<close> changes nothing in
  any handler: no data callback, no buffer consumption). The plain-body handler delivers
  and consumes what is buffered before it looks at the error value: with \<^verbatim>\<open>AB\<close>
  buffered, a cancelled read still hands \<^verbatim>\<open>AB\<close> to the data callback and empties the
  byte queue.
\<close>

theorem aborted_read_delivers_data:
  "trace (m_handleReadData 0 OperationAborted
       (Connection\<lparr>m_response := ''AB'', m_dataCallback := True\<rparr>)) = [DataCallback ''AB'']
   \<and> m_response (m_handleReadData 0 OperationAborted
       (Connection\<lparr>m_response := ''AB'', m_dataCallback := True\<rparr>)) = []"
  by (simp add: m_handleReadData_def Connection_def effect_defs Let_def)

text \<open>
  Claim C2, amended: on \<^verbatim>\<open>operation_aborted\<close> the write, status, header and chunk-size
  handlers only restart the timer. The plain-body and the chunk-body handler invoke
  neither the error nor the end-of-stream callback and do not shut down, but they hand
  the buffered bytes to the data callback first (all of them consumed by the plain-body
  handler; at most the bound length, and nothing consumed, by the chunk-body handler).
\<close>

theorem aborted_completion:
  assumes "length (m_response s) < 18446744073709551616"
  shows "m_handleWriteRequest now OperationAborted s = restartTimer now s
    \<and> m_handleWriteData now OperationAborted s = restartTimer now s
    \<and> m_handleReadStatus now code0 OperationAborted s = restartTimer now s
    \<and> m_handleReadHeaders now OperationAborted s = Inr (restartTimer now s)
    \<and> m_handleReadChunkLength now OperationAborted s = restartTimer now s
    \<and> m_handleReadData now OperationAborted s
        = (if m_response s = [] then restartTimer now s
           else (call_data (m_response s) (restartTimer now s))\<lparr>m_response := []\<rparr>)
    \<and> m_handleReadChunkData now OperationAborted L s
        = (if L = 0 then restartTimer now s
           else if length (m_response s) < unat L
             then call_data (m_response s) (restartTimer now s)
             else call_data (take (unat L) (m_response s)) (restartTimer now s))"
proof -
  have len: "unat (of_nat (length (m_response s)) :: size_t) = length (m_response s)"
    using assms by (rule unat_of_nat_size_t)
  have zero: "(of_nat (length (m_response s)) :: size_t) = 0 \<longleftrightarrow> m_response s = []"
    using assms by (simp add: of_nat_size_t_eq_0)
  have "m_handleReadData now OperationAborted s
        = (if m_response s = [] then restartTimer now s
           else (call_data (m_response s) (restartTimer now s))\<lparr>m_response := []\<rparr>)"
    using len zero
    by (simp add: m_handleReadData_def Let_def response_size_def consume_def call_data_def emit_def)
  moreover have "m_handleReadChunkData now OperationAborted L s
        = (if L = 0 then restartTimer now s
           else if length (m_response s) < unat L
             then call_data (m_response s) (restartTimer now s)
             else call_data (take (unat L) (m_response s)) (restartTimer now s))"
    using len
    by (simp add: m_handleReadChunkData_def Let_def response_size_def call_data_def emit_def
        word_less_nat_alt word_greater_zero_iff unat_eq_0)
  ultimately show ?thesis
    by (simp add: m_handleWriteRequest_def m_handleWriteData_def m_handleReadStatus_def
        m_handleReadHeaders_def m_handleReadChunkLength_def Let_def)
qed

theorem aborted_completion_witness:
  "length (m_response (Connection\<lparr>m_response := ''AB'', m_timeout := 30\<rparr>)) < 18446744073709551616
   \<and> m_handleReadChunkLength 7 OperationAborted (Connection\<lparr>m_response := ''AB'', m_timeout := 30\<rparr>)
       = Connection\<lparr>m_response := ''AB'', m_timeout := 30, expires_at := 37,
           trace := [AsyncWait 37]\<rparr>
   \<and> m_handleReadStatus 7 0 OperationAborted (Connection\<lparr>m_response := ''AB'', m_timeout := 30\<rparr>)
       = Connection\<lparr>m_response := ''AB'', m_timeout := 30, expires_at := 37,
           trace := [AsyncWait 37]\<rparr>"
proof -
  have h: "length (m_response (Connection\<lparr>m_response := ''AB'', m_timeout := 30\<rparr>))
      < 18446744073709551616"
    by (simp add: Connection_def)
  show ?thesis
    using h aborted_completion [OF h, of 7 0 0]
    by (simp add: Connection_def effect_defs)
qed


text \<open>
  The resolve and the connect handler have no test for \<^verbatim>\<open>operation_aborted\<close>: a
  cancelled resolve is reported like any failure, and a cancelled connect moves on to the
  next endpoint or is reported.
\<close>

lemma aborted_resolve:
  "m_handleResolve now OperationAborted it s
     = m_shutdown (call_error OperationAborted (restartTimer now s))"
  by (simp add: m_handleResolve_def Let_def)

lemma aborted_connect:
  "m_handleConnect now OperationAborted it s
     = (if tl it \<noteq> [] then async_connect (tl it) (restartTimer now s)
        else m_shutdown (call_error OperationAborted (restartTimer now s)))"
  by (simp add: m_handleConnect_def Let_def)

subsection \<open>After the status line\<close>

text \<open>With nothing pending and the socket closed no event changes the connection.\<close>

lemma dead_deliver:
  assumes "pending s = None" and "\<not> socket_is_open s"
  shows "deliver e s = Inr s"
  using assms by (cases e) (simp_all add: handleTimeout_def)

lemma dead_run:
  assumes "pending s = None" and "\<not> socket_is_open s"
  shows "run evs s = Inr s"
  using assms by (induction evs) (simp_all add: dead_deliver)

text \<open>
  The status handler on a buffer whose parsed code is not 200: the error callback with
  \<^verbatim>\<open>InvalidStatus\<close>, then shutdown, and no later event changes the connection.
\<close>

lemma invalid_status_parsed:
  assumes "pending s = Some (AsyncReadUntil CRLF, HReadStatus)"
    and "err c = Success"
    and "parse_status (junk c) (m_response s @ received c) = (proto, code, rest)"
    and "code \<noteq> 200"
    and "m_errorCallback s"
  shows "\<exists>s'. deliver (Io c) s = Inr s'
           \<and> trace s' = trace (restartTimer (clock c) s) @ [ErrorCallback InvalidStatus, Shutdown]
           \<and> \<not> socket_is_open s' \<and> \<not> m_active s'
           \<and> (\<forall>evs. run evs s' = Inr s')"
proof -
  define s' where "s' = m_handleReadStatus (clock c) (junk c) Success
      (s\<lparr>pending := None, m_response := m_response s @ received c\<rparr>)"
  have d: "deliver (Io c) s = Inr s'"
    using assms(1,2) by (simp add: s'_def)
  have eq: "s' = m_shutdown (call_error InvalidStatus
      ((restartTimer (clock c) (s\<lparr>pending := None, m_response := m_response s @ received c\<rparr>))
        \<lparr>m_response := rest\<rparr>))"
    using assms(3,4) by (simp add: s'_def m_handleReadStatus_def Let_def)
  have t: "trace s' = trace (restartTimer (clock c) s) @ [ErrorCallback InvalidStatus, Shutdown]"
    using assms(5) by (simp add: eq m_shutdown_def call_error_def emit_def restartTimer_def Let_def)
  have p: "pending s' = None" "\<not> socket_is_open s'" "\<not> m_active s'"
    by (simp_all add: eq m_shutdown_def call_error_def emit_def Let_def)
  have "\<forall>evs. run evs s' = Inr s'"
    using p(1,2) by (simp add: dead_run)
  with d t p show ?thesis
    by blast
qed

text \<open>What the two extractions read from a well-formed status line.\<close>

lemma isdigit_not_isspace: "isdigit c \<Longrightarrow> \<not> isspace c"
  by (auto simp add: isdigit_def isspace_def char_defs)

lemma isdigit_not_sign: "isdigit c \<Longrightarrow> c \<noteq> CHR ''-'' \<and> c \<noteq> CHR ''+''"
  by (auto simp add: isdigit_def)

lemma extract_string_token:
  assumes "proto \<noteq> []" and "list_all (\<lambda>c. \<not> isspace c) proto"
    and "sp \<noteq> []" and "list_all isspace sp"
  shows "extract_string \<lparr>content = proto @ sp @ tail, failbit = False\<rparr>
    = (proto, \<lparr>content = sp @ tail, failbit = False\<rparr>)"
proof -
  obtain p ps where p: "proto = p # ps"
    using assms(1) by (cases proto) auto
  obtain b bs where b: "sp = b # bs"
    using assms(3) by (cases sp) auto
  have np: "\<not> isspace p" and nb: "isspace b"
    using assms(2,4) p b by simp_all
  have all: "\<And>x. x \<in> set proto \<Longrightarrow> \<not> isspace x"
    using assms(2) by (simp add: list_all_iff)
  have d: "dropWhile isspace (proto @ sp @ tail) = proto @ sp @ tail"
    using np p by simp
  have t: "takeWhile (\<lambda>c. \<not> isspace c) (proto @ sp @ tail) = proto"
    using all nb b by (simp add: takeWhile_append2)
  have r: "dropWhile (\<lambda>c. \<not> isspace c) (proto @ sp @ tail) = sp @ tail"
    using all nb b by (simp add: dropWhile_append2)
  show ?thesis
    using d t r p by (simp add: extract_string_def Let_def)
qed

lemma extract_unsigned_code:
  assumes "sp \<noteq> []" and "list_all isspace sp"
    and "sg = [] \<or> sg = ''+'' \<or> sg = ''-''"
    and "ds \<noteq> []" and "list_all isdigit ds"
    and "rest = [] \<or> \<not> isdigit (hd rest)"
  shows "fst (extract_unsigned code0 \<lparr>content = sp @ sg @ ds @ rest, failbit = False\<rparr>)
    = (if 4294967295 < decimal ds then 4294967295
       else if sg = ''-'' then - of_nat (decimal ds) else of_nat (decimal ds))"
proof -
  obtain d dt where d: "ds = d # dt"
    using assms(4) by (cases ds) auto
  have dig: "isdigit d"
    using assms(5) d by simp
  have alls: "\<And>x. x \<in> set sp \<Longrightarrow> isspace x"
    using assms(2) by (simp add: list_all_iff)
  have alld: "\<And>x. x \<in> set ds \<Longrightarrow> isdigit x"
    using assms(5) by (simp add: list_all_iff)
  have tk: "takeWhile isdigit (ds @ rest) = ds"
    using alld assms(6) by (cases rest) (simp_all add: takeWhile_append2)
  have hd_ns: "sg @ ds @ rest \<noteq> [] \<and> \<not> isspace (hd (sg @ ds @ rest))"
    using assms(3) d dig isdigit_not_isspace [of d]
    by (auto simp add: isspace_def char_defs)
  then have dw: "dropWhile isspace (sp @ sg @ ds @ rest) = sg @ ds @ rest"
    using alls by (cases "sg @ ds @ rest") (simp_all add: dropWhile_append2)
  from assms(3) show ?thesis
  proof (elim disjE)
    assume "sg = []"
    then show ?thesis
      using dw tk d dig isdigit_not_sign [of d]
      by (simp add: extract_unsigned_def Let_def)
  next
    assume "sg = ''+''"
    then show ?thesis
      using dw tk d by (simp add: extract_unsigned_def Let_def)
  next
    assume "sg = ''-''"
    then show ?thesis
      using dw tk d by (simp add: extract_unsigned_def Let_def)
  qed
qed

lemma parse_status_line:
  assumes "well_formed_status proto sp sg ds rest"
  shows "\<exists>rest'. parse_status code0 (status_line proto sp sg ds rest)
    = (proto,
       (if 4294967295 < decimal ds then 4294967295
        else if sg = ''-'' then - of_nat (decimal ds) else of_nat (decimal ds)),
       rest')"
proof -
  have wf: "proto \<noteq> []" "list_all (\<lambda>c. \<not> isspace c) proto" "sp \<noteq> []" "list_all isspace sp"
    "sg = [] \<or> sg = ''+'' \<or> sg = ''-''" "ds \<noteq> []" "list_all isdigit ds"
    "rest = [] \<or> \<not> isdigit (hd rest)"
    using assms by (simp_all add: well_formed_status_def)
  have e1: "extract_string \<lparr>content = proto @ sp @ sg @ ds @ rest, failbit = False\<rparr>
    = (proto, \<lparr>content = sp @ sg @ ds @ rest, failbit = False\<rparr>)"
    using wf(1-4) by (rule extract_string_token)
  have e2: "fst (extract_unsigned code0 \<lparr>content = sp @ sg @ ds @ rest, failbit = False\<rparr>)
    = (if 4294967295 < decimal ds then 4294967295
       else if sg = ''-'' then - of_nat (decimal ds) else of_nat (decimal ds))"
    using wf(3-8) by (rule extract_unsigned_code)
  obtain code st2 where x: "extract_unsigned code0 \<lparr>content = sp @ sg @ ds @ rest, failbit = False\<rparr>
      = (code, st2)"
    by (cases "extract_unsigned code0 \<lparr>content = sp @ sg @ ds @ rest, failbit = False\<rparr>")
  obtain message st3 where g: "getline st2 = (message, st3)"
    by (cases "getline st2")
  have "parse_status code0 (status_line proto sp sg ds rest) = (proto, code, content st3)"
    by (simp add: parse_status_def status_line_def e1 x g)
  moreover have "code = (if 4294967295 < decimal ds then 4294967295
       else if sg = ''-'' then - of_nat (decimal ds) else of_nat (decimal ds))"
    using e2 unfolding x by simp
  ultimately show ?thesis
    by blast
qed

text \<open>
  The code is read into a 32-bit \<^verbatim>\<open>unsigned\<close>: it is 200 only for the value 200 and for
  the negative value that is 200 modulo \<open>2^32\<close>.
\<close>

lemma status_code_not_200:
  assumes "status_value sg ds \<noteq> 200" and "status_value sg ds \<noteq> - 4294967096"
  shows "(if 4294967295 < decimal ds then 4294967295
       else if sg = ''-'' then - of_nat (decimal ds) else of_nat (decimal ds)) \<noteq> (200 :: 32 word)"
proof (cases "4294967295 < decimal ds")
  case True
  then show ?thesis by simp
next
  case False
  then have le: "decimal ds < 2 ^ 32"
    by simp
  have u: "unat (of_nat (decimal ds) :: 32 word) = decimal ds"
    using le by (simp add: unat_of_nat)
  show ?thesis
  proof (cases "sg = ''-''")
    case True
    then have n: "decimal ds \<noteq> 4294967096"
      using assms(2) by (simp add: status_value_def)
    have "- (of_nat (decimal ds) :: 32 word) \<noteq> 200"
    proof
      assume "- (of_nat (decimal ds) :: 32 word) = 200"
      then have "(of_nat (decimal ds) :: 32 word) = - 200"
        by (metis minus_equation_iff)
      then have "unat (of_nat (decimal ds) :: 32 word) = unat (- 200 :: 32 word)"
        by simp
      then show False
        using u n by simp
    qed
    then show ?thesis
      using False True by simp
  next
    case neg: False
    then have n: "decimal ds \<noteq> 200"
      using assms(1) by (simp add: status_value_def)
    have "(of_nat (decimal ds) :: 32 word) \<noteq> 200"
    proof
      assume "(of_nat (decimal ds) :: 32 word) = 200"
      then have "unat (of_nat (decimal ds) :: 32 word) = unat (200 :: 32 word)"
        by simp
      then show False
        using u n by simp
    qed
    then show ?thesis
      using False neg by simp
  qed
qed

text \<open>
  A status line that ends after the protocol token leaves \<^verbatim>\<open>code\<close> as it was declared,
  without a value: when the variable happens to hold 200 the line is accepted.
\<close>

lemma status_without_code:
  "fst (snd (parse_status code0 (''HTTP/1.1'' @ CRLF))) = code0"
  by (simp add: status_defs char_defs Let_def)

text \<open>
  Claim C7, as stated (every status line whose numeric status code differs from 200 is
  reported as \<^verbatim>\<open>InvalidStatus\<close>). The code is extracted into an \<^verbatim>\<open>unsigned\<close>, and a
  negative number is taken modulo \<open>2^32\<close>: the status line
  \<^verbatim>\<open>HTTP/1.1 -4294967096 Gone\<close> is read as code 200. The handler invokes no callback,
  does not shut down, and issues the read of the header block.
\<close>

theorem negative_status_accepted:
  "deliver (Io (arrival (''HTTP/1.1 -4294967096 Gone'' @ CRLF))) awaiting_status
     = Inr (awaiting_status\<lparr>pending := Some (AsyncReadUntil (CRLF @ CRLF), HReadHeaders)\<rparr>)"
  by (simp add: sample_defs status_defs char_defs handler_defs effect_defs Let_def)

text \<open>
  Claim C7, amended: when the read of the status line completes with a line made of a
  protocol token, blanks and a decimal status code with an optional sign, and the number
  written is neither 200 nor -4294967096, then, whatever the protocol token, the handler
  invokes the error callback with \<^verbatim>\<open>InvalidStatus\<close> and shuts down (socket closed, not
  active); it invokes no other callback, and no later event changes the connection, so
  no data callback fires for that response.
\<close>

theorem invalid_status:
  assumes "pending s = Some (AsyncReadUntil CRLF, HReadStatus)"
    and "err c = Success"
    and "m_response s @ received c = status_line proto sp sg ds rest"
    and "well_formed_status proto sp sg ds rest"
    and "status_value sg ds \<noteq> 200"
    and "status_value sg ds \<noteq> - 4294967096"
    and "m_errorCallback s"
  shows "\<exists>s'. deliver (Io c) s = Inr s'
           \<and> trace s' = trace (restartTimer (clock c) s) @ [ErrorCallback InvalidStatus, Shutdown]
           \<and> \<not> socket_is_open s' \<and> \<not> m_active s'
           \<and> (\<forall>evs. run evs s' = Inr s')"
proof -
  define code :: "32 word" where "code = (if 4294967295 < decimal ds then 4294967295
        else if sg = ''-'' then - of_nat (decimal ds) else of_nat (decimal ds))"
  obtain rest' where "parse_status (junk c) (status_line proto sp sg ds rest)
      = (proto, code, rest')"
    using parse_status_line [OF assms(4)] unfolding code_def by blast
  then have p: "parse_status (junk c) (m_response s @ received c) = (proto, code, rest')"
    using assms(3) by simp
  have n: "code \<noteq> 200"
    unfolding code_def using assms(5,6) by (rule status_code_not_200)
  show ?thesis
    using assms(1,2) p n assms(7) by (rule invalid_status_parsed)
qed

theorem invalid_status_witness:
  "pending awaiting_status = Some (AsyncReadUntil CRLF, HReadStatus)
   \<and> err (arrival (''HTTP/1.1 404 Not Found'' @ CRLF)) = Success
   \<and> m_response awaiting_status @ received (arrival (''HTTP/1.1 404 Not Found'' @ CRLF))
       = status_line ''HTTP/1.1'' '' '' [] ''404'' ('' Not Found'' @ CRLF)
   \<and> well_formed_status ''HTTP/1.1'' '' '' [] ''404'' ('' Not Found'' @ CRLF)
   \<and> status_value [] ''404'' = 404
   \<and> m_errorCallback awaiting_status
   \<and> (\<exists>s'. deliver (Io (arrival (''HTTP/1.1 404 Not Found'' @ CRLF))) awaiting_status = Inr s'
         \<and> trace s' = [ErrorCallback InvalidStatus, Shutdown]
         \<and> \<not> socket_is_open s' \<and> \<not> m_active s'
         \<and> (\<forall>evs. run evs s' = Inr s'))"
proof -
  let ?c = "arrival (''HTTP/1.1 404 Not Found'' @ CRLF)"
  have h1: "pending awaiting_status = Some (AsyncReadUntil CRLF, HReadStatus)"
    by (simp add: sample_defs)
  have h2: "err ?c = Success"
    by (simp add: sample_defs)
  have h3: "m_response awaiting_status @ received ?c
      = status_line ''HTTP/1.1'' '' '' [] ''404'' ('' Not Found'' @ CRLF)"
    by (simp add: sample_defs status_line_def)
  have h4: "well_formed_status ''HTTP/1.1'' '' '' [] ''404'' ('' Not Found'' @ CRLF)"
    by (simp add: well_formed_status_def isspace_def isdigit_def char_defs)
  have v: "status_value [] ''404'' = 404"
    by (simp add: status_value_def decimal_def digit_val_def)
  have h5: "status_value [] ''404'' \<noteq> 200" and h6: "status_value [] ''404'' \<noteq> - 4294967096"
    unfolding v by simp_all
  have h7: "m_errorCallback awaiting_status"
    by (simp add: sample_defs)
  have t: "trace (restartTimer (clock ?c) awaiting_status) = []"
    by (simp add: sample_defs restartTimer_def)
  show ?thesis
    using h1 h2 h3 h4 v h7 invalid_status [OF h1 h2 h3 h4 h5 h6 h7] unfolding t by simp
qed

subsection \<open>The plain stream\<close>

lemma plain_stream_emit:
  "a \<noteq> HeadersCallback \<Longrightarrow> plain_stream hs ch n (emit a s) = plain_stream hs ch n s"
  by (simp add: plain_stream_def emit_def)

lemma plain_stream_updates [simp]:
  "plain_stream hs ch n (s\<lparr>m_response := r\<rparr>) = plain_stream hs ch n s"
  "plain_stream hs ch n (s\<lparr>m_active := b\<rparr>) = plain_stream hs ch n s"
  "plain_stream hs ch n (s\<lparr>socket_is_open := b\<rparr>) = plain_stream hs ch n s"
  "plain_stream hs ch n (s\<lparr>expires_at := d\<rparr>) = plain_stream hs ch n s"
  by (simp_all add: plain_stream_def)

lemma plain_stream_steps [simp]:
  "plain_stream hs ch n (restartTimer now s) = plain_stream hs ch n s"
  "plain_stream hs ch n (consume k s) = plain_stream hs ch n s"
  "plain_stream hs ch n (call_data bytes s) = plain_stream hs ch n s"
  "plain_stream hs ch n (call_error e s) = plain_stream hs ch n s"
  "plain_stream hs ch n (call_eof s) = plain_stream hs ch n s"
  "plain_stream hs ch n (m_shutdown s) = plain_stream hs ch n s"
  by (simp_all add: restartTimer_def consume_def call_data_def call_error_def call_eof_def
      m_shutdown_def Let_def plain_stream_emit)

lemma plain_stream_issue:
  "plain_stream hs ch n s \<Longrightarrow> plain_stream hs ch n (issue op HReadData s)"
  by (simp add: plain_stream_def issue_def)

lemma plain_stream_handleTimeout:
  "plain_stream hs ch n s \<Longrightarrow> plain_stream hs ch n (handleTimeout now e s)"
  by (simp add: handleTimeout_def Let_def plain_stream_emit)

lemma plain_stream_m_handleReadData:
  "plain_stream hs ch n s \<Longrightarrow> plain_stream hs ch n (m_handleReadData now e s)"
  by (simp add: m_handleReadData_def Let_def plain_stream_issue)

lemma plain_stream_deliver:
  assumes "plain_stream hs ch n s"
  shows "\<exists>s'. deliver e s = Inr s' \<and> plain_stream hs ch n s'"
proof (cases e)
  case (Timer now x)
  then show ?thesis
    using assms by (simp add: plain_stream_handleTimeout)
next
  case (Io c)
  show ?thesis
  proof (cases "pending s")
    case None
    then show ?thesis
      using assms Io by simp
  next
    case (Some p)
    then obtain op where op: "pending s = Some (op, HReadData)"
      using assms by (auto simp add: plain_stream_def)
    have "plain_stream hs ch n (s\<lparr>pending := None, m_response := bytes\<rparr>)" for bytes
      using assms by (simp add: plain_stream_def)
    then have "plain_stream hs ch n (m_handleReadData (clock c) (err c)
        (s\<lparr>pending := None, m_response := bytes\<rparr>))" for bytes
      by (rule plain_stream_m_handleReadData)
    then show ?thesis
      using Io op by simp
  qed
qed

lemma plain_stream_run:
  assumes "plain_stream hs ch n s"
  shows "\<exists>s'. run evs s = Inr s' \<and> plain_stream hs ch n s'"
  using assms
proof (induction evs arbitrary: s)
  case Nil
  then show ?case by simp
next
  case (Cons e evs)
  from plain_stream_deliver [OF Cons.prems, of e]
  obtain s1 where "deliver e s = Inr s1" and "plain_stream hs ch n s1"
    by blast
  with Cons.IH [of s1] show ?case
    by simp
qed

text \<open>
  Claim C8: when the read of the status line completes with protocol token \<^verbatim>\<open>ICY\<close> and
  status code 200, the handler marks the connection active and issues the plain-body
  read at once; and whatever events follow, the headers-ready callback is not invoked,
  the header mapping stays empty and the chunked flag stays unset.
\<close>

theorem icy_skips_headers:
  assumes "pending s = Some (AsyncReadUntil CRLF, HReadStatus)"
    and "err c = Success"
    and "parse_status (junk c) (m_response s @ received c) = (''ICY'', 200, rest)"
    and "m_headers s = []" and "\<not> m_chunked s"
  shows "\<exists>s'. deliver (Io c) s = Inr s'
           \<and> m_active s' \<and> pending s' = Some (AsyncRead, HReadData)
           \<and> trace s' = trace (restartTimer (clock c) s)
           \<and> (\<forall>evs. \<exists>s''. run evs s' = Inr s''
                 \<and> m_headers s'' = [] \<and> \<not> m_chunked s''
                 \<and> count_list (trace s'') HeadersCallback = count_list (trace s) HeadersCallback)"
proof -
  define s' where "s' = m_handleReadStatus (clock c) (junk c) Success
      (s\<lparr>pending := None, m_response := m_response s @ received c\<rparr>)"
  have d: "deliver (Io c) s = Inr s'"
    using assms(1,2) by (simp add: s'_def)
  have eq: "s' = issue AsyncRead HReadData
      ((restartTimer (clock c) (s\<lparr>pending := None, m_response := m_response s @ received c\<rparr>))
        \<lparr>m_response := rest, m_active := True\<rparr>)"
    using assms(3) by (simp add: s'_def m_handleReadStatus_def Let_def)
  have a: "m_active s'" "pending s' = Some (AsyncRead, HReadData)"
    "trace s' = trace (restartTimer (clock c) s)"
    by (simp_all add: eq issue_def restartTimer_def emit_def)
  have "plain_stream [] False (count_list (trace s) HeadersCallback) s'"
    using assms(4,5) by (simp add: plain_stream_def eq issue_def restartTimer_def emit_def)
  then have "\<forall>evs. \<exists>s''. run evs s' = Inr s''
                 \<and> m_headers s'' = [] \<and> \<not> m_chunked s''
                 \<and> count_list (trace s'') HeadersCallback = count_list (trace s) HeadersCallback"
    using plain_stream_run unfolding plain_stream_def by blast
  with d a show ?thesis
    by blast
qed

theorem icy_skips_headers_witness:
  "pending awaiting_status = Some (AsyncReadUntil CRLF, HReadStatus)
   \<and> err (arrival (''ICY 200 OK'' @ CRLF @ ''xyz'')) = Success
   \<and> parse_status (junk (arrival (''ICY 200 OK'' @ CRLF @ ''xyz'')))
        (m_response awaiting_status @ received (arrival (''ICY 200 OK'' @ CRLF @ ''xyz'')))
       = (''ICY'', 200, ''xyz'')
   \<and> m_headers awaiting_status = [] \<and> \<not> m_chunked awaiting_status
   \<and> (\<exists>s'. deliver (Io (arrival (''ICY 200 OK'' @ CRLF @ ''xyz''))) awaiting_status = Inr s'
           \<and> m_active s' \<and> pending s' = Some (AsyncRead, HReadData)
           \<and> trace s' = []
           \<and> (\<forall>evs. \<exists>s''. run evs s' = Inr s''
                 \<and> m_headers s'' = [] \<and> \<not> m_chunked s''
                 \<and> count_list (trace s'') HeadersCallback = 0))"
proof -
  let ?c = "arrival (''ICY 200 OK'' @ CRLF @ ''xyz'')"
  have h1: "pending awaiting_status = Some (AsyncReadUntil CRLF, HReadStatus)"
    by (simp add: sample_defs)
  have h2: "err ?c = Success"
    by (simp add: sample_defs)
  have h3: "parse_status (junk ?c) (m_response awaiting_status @ received ?c)
      = (''ICY'', 200, ''xyz'')"
    by (simp add: sample_defs status_defs char_defs Let_def)
  have h4: "m_headers awaiting_status = []"
    by (simp add: sample_defs)
  have h5: "\<not> m_chunked awaiting_status"
    by (simp add: sample_defs)
  have t: "trace (restartTimer (clock ?c) awaiting_status) = []" "trace awaiting_status = []"
    by (simp_all add: sample_defs restartTimer_def)
  show ?thesis
    using h1 h2 h3 h4 h5 icy_skips_headers [OF h1 h2 h3 h4 h5] unfolding t by simp
qed

subsection \<open>Terminal callbacks and shutdown\<close>

lemma pair_step_Broken [simp]: "foldl pair_step Broken t = Broken"
  by (induction t) simp_all

lemma paired_snoc:
  "paired (t @ [a]) \<longleftrightarrow> pair_step (foldl pair_step Idle t) a = Idle"
  by (simp add: paired_def)

lemma paired_neutral:
  assumes "\<not> terminal a" and "a \<noteq> Shutdown"
  shows "paired (t @ [a]) = paired t"
  using assms by (cases "foldl pair_step Idle t") (simp_all add: paired_def)

lemma paired_terminal_Shutdown:
  assumes "terminal a"
  shows "paired (t @ [a, Shutdown]) = paired t"
  using assms by (cases "foldl pair_step Idle t") (simp_all add: paired_def)

lemma notifying_emit:
  assumes "\<not> terminal a" and "a \<noteq> Shutdown"
  shows "notifying (emit a s) = notifying s"
  using assms by (simp add: notifying_def emit_def paired_neutral)

lemma notifying_updates [simp]:
  "notifying (s\<lparr>m_response := r\<rparr>) = notifying s"
  "notifying (s\<lparr>m_active := b\<rparr>) = notifying s"
  "notifying (s\<lparr>m_headers := hs\<rparr>) = notifying s"
  "notifying (s\<lparr>m_chunked := b\<rparr>) = notifying s"
  "notifying (s\<lparr>m_timeout := n\<rparr>) = notifying s"
  "notifying (s\<lparr>pending := p\<rparr>) = notifying s"
  "notifying (s\<lparr>socket_is_open := b\<rparr>) = notifying s"
  "notifying (s\<lparr>expires_at := n\<rparr>) = notifying s"
  by (simp_all add: notifying_def)

lemma notifying_steps [simp]:
  "notifying (restartTimer now s) = notifying s"
  "notifying (issue op h s) = notifying s"
  "notifying (async_connect it s) = notifying s"
  "notifying (consume n s) = notifying s"
  "notifying (call_data bytes s) = notifying s"
  "notifying (call_headers s) = notifying s"
  by (simp_all add: restartTimer_def issue_def async_connect_def consume_def call_data_def
      call_headers_def notifying_emit)

lemma notifying_fail [simp]: "notifying (m_shutdown (call_error e s)) = notifying s"
proof (cases "m_errorCallback s")
  case True
  then show ?thesis
    by (simp add: notifying_def m_shutdown_def call_error_def emit_def Let_def
        paired_terminal_Shutdown)
next
  case False
  then show ?thesis
    by (simp add: notifying_def m_shutdown_def call_error_def emit_def Let_def)
qed

lemma notifying_finish [simp]: "notifying (m_shutdown (call_eof s)) = notifying s"
proof (cases "m_eofCallback s")
  case True
  then show ?thesis
    by (simp add: notifying_def m_shutdown_def call_eof_def emit_def Let_def
        paired_terminal_Shutdown)
next
  case False
  then show ?thesis
    by (simp add: notifying_def m_shutdown_def call_eof_def emit_def Let_def)
qed

lemma notifying_handleTimeout [simp]: "notifying (handleTimeout now e s) = notifying s"
  by (simp add: handleTimeout_def Let_def notifying_emit)

lemma notifying_m_handleResolve [simp]: "notifying (m_handleResolve now e it s) = notifying s"
  by (simp add: m_handleResolve_def Let_def)

lemma notifying_m_handleConnect [simp]: "notifying (m_handleConnect now e it s) = notifying s"
  by (simp add: m_handleConnect_def Let_def)

lemma notifying_m_handleWriteRequest [simp]: "notifying (m_handleWriteRequest now e s) = notifying s"
  by (simp add: m_handleWriteRequest_def Let_def)

lemma notifying_m_handleWriteData [simp]: "notifying (m_handleWriteData now e s) = notifying s"
  by (simp add: m_handleWriteData_def Let_def)

lemma notifying_m_handleReadStatus [simp]:
  "notifying (m_handleReadStatus now code0 e s) = notifying s"
  by (simp add: m_handleReadStatus_def Let_def split: prod.splits)

lemma m_handleReadHeaders_Success:
  assumes "parse_headers (m_response s) (m_headers s) (m_chunked s) = Inr (rest, hs, ch)"
  shows "m_handleReadHeaders now Success s
    = Inr (issue (if ch then AsyncReadUntil CRLF else AsyncRead)
             (if ch then HReadChunkLength else HReadData)
             ((call_headers ((restartTimer now s)
                 \<lparr>m_response := rest, m_headers := hs, m_chunked := ch\<rparr>))\<lparr>m_active := True\<rparr>))"
  using assms by (simp add: m_handleReadHeaders_def Let_def call_headers_def emit_def)

lemma notifying_m_handleReadHeaders:
  assumes "m_handleReadHeaders now e s = Inr s'"
  shows "notifying s' = notifying s"
proof (cases "e = Success")
  case True
  show ?thesis
  proof (cases "parse_headers (m_response s) (m_headers s) (m_chunked s)")
    case (Inl x)
    then show ?thesis
      using assms True by (simp add: m_handleReadHeaders_def Let_def)
  next
    case (Inr r)
    obtain rest hs ch where "r = (rest, hs, ch)"
      by (cases r) auto
    then show ?thesis
      using assms True Inr m_handleReadHeaders_Success [of s rest hs ch now] by auto
  qed
next
  case False
  then show ?thesis
    using assms by (cases "e = OperationAborted") (auto simp add: m_handleReadHeaders_def Let_def)
qed

lemma notifying_m_handleReadData [simp]: "notifying (m_handleReadData now e s) = notifying s"
  by (simp add: m_handleReadData_def Let_def)

lemma notifying_m_handleReadChunkData [simp]:
  "notifying (m_handleReadChunkData now e L s) = notifying s"
  by (simp add: m_handleReadChunkData_def Let_def)

lemma notifying_m_handleReadChunkLength [simp]:
  "notifying (m_handleReadChunkLength now e s) = notifying s"
  by (simp add: m_handleReadChunkLength_def Let_def split: prod.splits)

lemma notifying_invoke:
  "invoke h c s = Inr s' \<Longrightarrow> notifying s' = notifying s"
  by (cases h) (auto simp add: notifying_m_handleReadHeaders)

lemma notifying_deliver:
  assumes "deliver e s = Inr s'"
  shows "notifying s' = notifying s"
proof (cases e)
  case (Timer now x)
  then show ?thesis
    using assms by auto
next
  case (Io c)
  show ?thesis
  proof (cases "pending s")
    case None
    then show ?thesis
      using assms Io by simp
  next
    case (Some p)
    obtain op h where "p = (op, h)"
      by (cases p)
    then show ?thesis
      using assms Io Some notifying_invoke [of h c _ s'] by auto
  qed
qed

lemma notifying_run:
  "run evs s = Inr s' \<Longrightarrow> notifying s' = notifying s"
proof (induction evs arbitrary: s)
  case Nil
  then show ?case by simp
next
  case (Cons e evs)
  then show ?case
    by (auto split: sum.splits dest: notifying_deliver)
qed

lemma paired_first_shutdown:
  assumes "foldl pair_step Idle t = Idle" and "Shutdown \<in> set t"
  shows "\<exists>a. terminal a \<and> terminal_before_shutdown t = [a]"
  using assms
proof (induction t)
  case Nil
  then show ?case by simp
next
  case (Cons a t)
  show ?case
  proof (cases "terminal a")
    case True
    then have "foldl pair_step Awaiting t = Idle"
      using Cons.prems(1) by simp
    then obtain t' where "t = Shutdown # t'"
      by (cases t) (auto split: if_splits)
    then show ?thesis
      using True by (auto simp add: terminal_before_shutdown_def)
  next
    case False
    then have "a \<noteq> Shutdown"
      using Cons.prems(1) by (auto split: if_splits)
    then show ?thesis
      using False Cons by (auto simp add: terminal_before_shutdown_def split: if_splits)
  qed
qed

text \<open>\<^verbatim>\<open>start()\<close> is \<^verbatim>\<open>start(0)\<close> on a connection as constructed.\<close>

lemma start_without_timeout:
  "m_timeout s = 0 \<Longrightarrow> start_timeout 0 now s = start s"
  by (simp add: start_timeout_def start_def restartTimer_def issue_def)

text \<open>
  What holds in every execution that no exception ends, for a consumer that stored the
  end-of-stream and the error callback: each invocation of one of the two is followed at
  once by \<^verbatim>\<open>m_shutdown\<close>, \<^verbatim>\<open>m_shutdown\<close> is entered nowhere else, and when it is
  entered for the first time exactly one of the two callbacks has been invoked, once.
  Nothing here bounds the number of such pairs in an execution.
\<close>

lemma terminal_callback_paired:
  assumes "m_eofCallback s0" and "m_errorCallback s0" and "trace s0 = []"
    and "run evs (start_timeout timeout now s0) = Inr s"
    and "Shutdown \<in> set (trace s)"
  shows "paired (trace s)
    \<and> (\<exists>a. terminal_before_shutdown (trace s) = [a] \<and> (a = EofCallback \<or> (\<exists>e. a = ErrorCallback e)))"
proof -
  have "notifying s0"
    using assms(1-3) by (simp add: notifying_def paired_def)
  then have "notifying (start_timeout timeout now s0)"
    by (simp add: start_timeout_def start_def)
  then have "notifying s"
    using notifying_run [OF assms(4)] by simp
  then have p: "paired (trace s)"
    by (simp add: notifying_def)
  then obtain a where "terminal a" and "terminal_before_shutdown (trace s) = [a]"
    using paired_first_shutdown assms(5) unfolding paired_def by blast
  moreover from \<open>terminal a\<close> have "a = EofCallback \<or> (\<exists>e. a = ErrorCallback e)"
    by (cases a) simp_all
  ultimately show ?thesis
    using p by blast
qed

text \<open>
  A started connection that receives a header line without a colon: the exception of
  \<^verbatim>\<open>trimStringPair\<close> ends the handler, and neither callback has been invoked.
\<close>

lemma header_exception_ends_run:
  "run [Io (resolved [1]), Io (failure Success), Io (failure Success),
        Io (arrival (''HTTP/1.1 200 OK'' @ CRLF)), Io (arrival (''Foo'' @ CRLF @ CRLF))]
     (start listener) = Inl OutOfRange"
  by (simp add: sample_defs status_defs char_defs handler_defs effect_defs Let_def
      m_handleReadHeaders_def parse_headers.simps string_defs)

text \<open>
  Claim C3 (in every execution of a started connection exactly one of the end-of-stream
  and the error callback is invoked before the connection is closed, never both and never
  neither), evaluated on two executions with timeout 30 in which the timer fires at its
  deadline while the connect is in flight. The supervisor reports \<^verbatim>\<open>ConnectionTimeout\<close>
  and closes the socket, which cancels the connect; \<^verbatim>\<open>m_handleConnect\<close> has no test for
  \<^verbatim>\<open>operation_aborted\<close> and treats the cancellation as a failed attempt. With one
  endpoint it invokes the error callback a second time and shuts down again. With a
  second endpoint it connects to that one (\<^verbatim>\<open>async_connect\<close> opens the socket anew),
  the stream is served, and the same execution ends with the end-of-stream callback and
  a second shutdown.
\<close>

theorem cancelled_connect_reports_again:
  "run [Io (resolved [1]), Timer 30 Success, Io ((failure OperationAborted)\<lparr>clock := 30\<rparr>)]
     (start_timeout 30 0 listener)
     = Inr (listener\<lparr>m_timeout := 30, expires_at := 60,
          trace := [AsyncWait 30, AsyncWait 30, ErrorCallback ConnectionTimeout, Shutdown,
                    AsyncWait 60, ErrorCallback OperationAborted, Shutdown]\<rparr>)
   \<and> run [Io (resolved [1, 2]), Timer 30 Success,
          Io ((failure OperationAborted)\<lparr>clock := 30\<rparr>),
          Io ((failure Success)\<lparr>clock := 31\<rparr>), Io ((failure Success)\<lparr>clock := 32\<rparr>),
          Io ((arrival (''ICY 200 OK'' @ CRLF @ ''xyz''))\<lparr>clock := 33\<rparr>),
          Io ((failure Eof)\<lparr>clock := 34\<rparr>)]
     (start_timeout 30 0 listener)
     = Inr (listener\<lparr>m_timeout := 30, expires_at := 64,
          trace := [AsyncWait 30, AsyncWait 30, ErrorCallback ConnectionTimeout, Shutdown,
                    AsyncWait 60, AsyncWait 61, AsyncWait 62, AsyncWait 63, AsyncWait 64,
                    DataCallback ''xyz'', EofCallback, Shutdown]\<rparr>)"
  by (simp add: sample_defs status_defs char_defs handler_defs effect_defs Let_def)

subsection \<open>The header mapping before the header block\<close>

lemma pending_steps [simp]:
  "pending (emit a s) = pending s"
  "pending (call_error e s) = pending s"
  "pending (call_eof s) = pending s"
  "pending (call_data bytes s) = pending s"
  "pending (call_headers s) = pending s"
  "pending (consume n s) = pending s"
  "pending (m_shutdown s) = pending s"
  by (simp_all add: emit_def call_error_def call_eof_def call_data_def call_headers_def
      consume_def m_shutdown_def Let_def)

lemma unparsed_idle: "pending s = None \<Longrightarrow> unparsed s"
  by (simp add: unparsed_def)

lemma unparsed_handleTimeout: "unparsed s \<Longrightarrow> unparsed (handleTimeout now e s)"
  by (auto simp add: unparsed_def handleTimeout_def effect_defs Let_def)

lemma unparsed_early:
  assumes "m_headers s = []" and "\<not> m_chunked s"
  shows "unparsed (m_handleResolve now e it s)"
    and "unparsed (m_handleConnect now e it s)"
    and "unparsed (m_handleWriteRequest now e s)"
    and "unparsed (m_handleReadStatus now code0 e s)"
  using assms
  by (simp_all add: unparsed_def m_handleResolve_def m_handleConnect_def
      m_handleWriteRequest_def m_handleReadStatus_def effect_defs Let_def split: prod.splits)

lemma unparsed_late:
  assumes "pending s = None"
  shows "unparsed (m_handleWriteData now e s)"
    and "unparsed (m_handleReadData now e s)"
    and "unparsed (m_handleReadChunkData now e L s)"
  using assms
  by (simp_all add: unparsed_def m_handleWriteData_def m_handleReadData_def
      m_handleReadChunkData_def effect_defs Let_def)

lemma unparsed_m_handleReadChunkLength:
  assumes "pending s = None"
  shows "unparsed (m_handleReadChunkLength now e s)"
proof -
  have "pending (consume n (restartTimer now s)) = None" for n
    using assms by (simp add: consume_def)
  then have "unparsed (m_handleReadChunkData now Success L (consume n (restartTimer now s)))" for n L
    by (rule unparsed_late)
  then show ?thesis
    using assms
    by (simp add: m_handleReadChunkLength_def Let_def split: prod.splits)
      (simp add: unparsed_def effect_defs Let_def)
qed

lemma unparsed_m_handleReadHeaders:
  assumes "m_handleReadHeaders now e s = Inr s'" and "pending s = None"
  shows "unparsed s'"
proof (cases "e = Success")
  case True
  show ?thesis
  proof (cases "parse_headers (m_response s) (m_headers s) (m_chunked s)")
    case (Inl x)
    then show ?thesis
      using assms True by (simp add: m_handleReadHeaders_def Let_def)
  next
    case (Inr r)
    obtain rest hs ch where "r = (rest, hs, ch)"
      by (cases r) auto
    then show ?thesis
      using assms True Inr m_handleReadHeaders_Success [of s rest hs ch now]
      by (auto simp add: unparsed_def issue_def)
  qed
next
  case False
  then have "s' = restartTimer now s \<or> s' = m_shutdown (call_error e (restartTimer now s))"
    using assms(1) by (auto simp add: m_handleReadHeaders_def Let_def split: if_splits)
  then have "pending s' = None"
    using assms(2) by auto
  then show ?thesis
    by (rule unparsed_idle)
qed

lemma unparsed_deliver:
  assumes "unparsed s" and "deliver e s = Inr s'"
  shows "unparsed s'"
proof (cases e)
  case (Timer now x)
  then show ?thesis
    using assms by (auto simp add: unparsed_handleTimeout)
next
  case (Io c)
  show ?thesis
  proof (cases "pending s")
    case None
    then show ?thesis
      using assms Io by simp
  next
    case (Some q)
    obtain op h where q: "q = (op, h)"
      by (cases q)
    define t where "t = s\<lparr>pending := None,
        m_response := m_response s @ (if is_read op then received c else [])\<rparr>"
    have inv: "invoke h c t = Inr s'"
      using assms(2) Io Some q by (simp add: t_def)
    have p: "pending t = None"
      by (simp add: t_def)
    show ?thesis
    proof (cases "before_body h")
      case False
      then show ?thesis
        using inv p unparsed_late [OF p] unparsed_m_handleReadChunkLength [OF p]
        by (cases h) auto
    next
      case True
      then have "m_headers t = []" and "\<not> m_chunked t"
        using assms(1) Some q by (auto simp add: unparsed_def t_def)
      then show ?thesis
        using True inv p unparsed_early [of t] unparsed_m_handleReadHeaders [of _ _ t s']
        by (cases h) auto
    qed
  qed
qed

lemma unparsed_run:
  assumes "unparsed s" and "run evs s = Inr s'"
  shows "unparsed s'"
  using assms
proof (induction evs arbitrary: s)
  case Nil
  then show ?case by simp
next
  case (Cons e evs)
  then show ?case
    by (auto split: sum.splits dest: unparsed_deliver)
qed

text \<open>Before the header block is read the header mapping is as constructed.\<close>

lemma status_read_unparsed:
  assumes "m_headers s0 = []" and "\<not> m_chunked s0"
    and "run evs (start_timeout timeout now s0) = Inr s"
    and "pending s = Some (op, HReadStatus)"
  shows "m_headers s = [] \<and> \<not> m_chunked s"
proof -
  have "unparsed (start_timeout timeout now s0)"
    using assms(1,2) by (simp add: unparsed_def start_timeout_def start_def effect_defs)
  then have "unparsed s"
    using assms(3) by (rule unparsed_run)
  then show ?thesis
    using assms(4) by (auto simp add: unparsed_def)
qed

subsection \<open>Delimiters on the wire\<close>

lemma has_infix_iff: "has_infix d buf \<longleftrightarrow> (\<exists>u v. buf = u @ d @ v)"
proof (induction buf)
  case Nil
  then show ?case by auto
next
  case (Cons c cs)
  show ?case
  proof
    assume "has_infix d (c # cs)"
    then consider "take (length d) (c # cs) = d" | "has_infix d cs"
      by auto
    then show "\<exists>u v. c # cs = u @ d @ v"
    proof cases
      case 1
      then have "c # cs = [] @ d @ drop (length d) (c # cs)"
        by (metis append_Nil append_take_drop_id)
      then show ?thesis by blast
    next
      case 2
      then obtain u v where "cs = u @ d @ v"
        using Cons.IH by blast
      then have "c # cs = (c # u) @ d @ v"
        by simp
      then show ?thesis by blast
    qed
  next
    assume "\<exists>u v. c # cs = u @ d @ v"
    then obtain u v where uv: "c # cs = u @ d @ v"
      by blast
    show "has_infix d (c # cs)"
    proof (cases u)
      case Nil
      then have "take (length d) (c # cs) = d"
        using uv by simp
      then show ?thesis by simp
    next
      case (Cons a u')
      then have "cs = u' @ d @ v"
        using uv by simp
      then have "has_infix d cs"
        using Cons.IH by blast
      then show ?thesis by simp
    qed
  qed
qed

lemma has_infix_append: "has_infix d buf \<Longrightarrow> has_infix d (buf @ tail)"
  by (auto simp add: has_infix_iff) (metis append.assoc)

lemma need_until_Some:
  "need_until d buf wire = Some k \<Longrightarrow> k \<le> length wire \<and> has_infix d (buf @ take k wire)"
proof (induction wire arbitrary: buf k)
  case Nil
  then show ?case by (auto split: if_splits)
next
  case (Cons c wire)
  show ?case
  proof (cases "has_infix d buf")
    case True
    then show ?thesis using Cons.prems by simp
  next
    case False
    then obtain j where j: "need_until d (buf @ [c]) wire = Some j" and k: "k = Suc j"
      using Cons.prems by auto
    from Cons.IH [OF j] show ?thesis
      using k by simp
  qed
qed

lemma need_until_None:
  "need_until d buf wire = None \<Longrightarrow> \<not> has_infix d (buf @ wire)"
proof (induction wire arbitrary: buf)
  case Nil
  then show ?case by (auto split: if_splits)
next
  case (Cons c wire)
  then have "need_until d (buf @ [c]) wire = None"
    by (auto split: if_splits)
  from Cons.IH [OF this] show ?case
    by simp
qed

text \<open>A buffer that is long enough begins with the head of the stream.\<close>

lemma buffered_prefix:
  assumes "buf @ wire = a @ r" and "length a \<le> length buf"
  shows "\<exists>b. buf = a @ b \<and> b @ wire = r"
proof -
  have "take (length a) (buf @ wire) = a"
    using assms(1) by simp
  then have a: "take (length a) buf = a"
    using assms(2) by simp
  then have b: "buf = a @ drop (length a) buf"
    by (metis append_take_drop_id)
  then have "a @ drop (length a) buf @ wire = a @ r"
    using assms(1) by (metis append.assoc)
  then have "drop (length a) buf @ wire = r"
    by simp
  with b show ?thesis by blast
qed

text \<open>The first line terminator of a stream that begins with a size line is its own.\<close>

lemma size_line_buffered:
  assumes "buf @ wire = ds @ CRLF @ r" and "has_infix CRLF buf" and "CR \<notin> set ds"
  shows "\<exists>b. buf = ds @ CRLF @ b \<and> b @ wire = r"
proof -
  obtain u v where uv: "buf = u @ CRLF @ v"
    using assms(2) by (auto simp add: has_infix_iff)
  have "length ds \<le> length u"
  proof (rule ccontr)
    assume "\<not> length ds \<le> length u"
    then have lt: "length u < length ds" by simp
    have "(buf @ wire) ! length u = CR"
      using uv by (simp add: CRLF_def nth_append)
    moreover have "(buf @ wire) ! length u = ds ! length u"
      using assms(1) lt by (simp add: nth_append)
    ultimately have "CR \<in> set ds"
      using lt by (metis nth_mem)
    then show False
      using assms(3) by simp
  qed
  then have "length (ds @ CRLF) \<le> length buf"
    using uv by (simp add: CRLF_def)
  moreover have "buf @ wire = (ds @ CRLF) @ r"
    using assms(1) by simp
  ultimately obtain b where "buf = (ds @ CRLF) @ b" and "b @ wire = r"
    using buffered_prefix by blast
  then show ?thesis by auto
qed

subsection \<open>The chunk handlers on a well-formed buffer\<close>

lemma of_nat_size_t_less:
  assumes "a < 18446744073709551616" and "b < 18446744073709551616"
  shows "((of_nat a :: size_t) < of_nat b) = (a < b)"
  using assms by (simp add: word_less_nat_alt unat_of_nat_size_t)

lemma unat_plus2:
  assumes "n + 2 < 18446744073709551616"
  shows "unat ((of_nat n :: size_t) + 2) = n + 2"
proof -
  have "(of_nat n :: size_t) + 2 = of_nat (n + 2)"
    by simp
  then show ?thesis
    using unat_of_nat_size_t [OF assms] by metis
qed

lemma less_plus2:
  assumes "a < 18446744073709551616" and "n + 2 < 18446744073709551616"
  shows "((of_nat a :: size_t) < of_nat n + 2) = (a < n + 2)"
  using unat_plus2 [OF assms(2)] unat_of_nat_size_t [OF assms(1)]
  unfolding word_less_nat_alt by presburger

lemma unat_shortfall:
  assumes "a < n + 2" and "n + 2 < 18446744073709551616"
  shows "unat ((of_nat n :: size_t) + 2 - of_nat a) = n + 2 - a"
proof -
  have a: "a < 18446744073709551616"
    using assms by linarith
  have "(of_nat a :: size_t) \<le> of_nat n + 2"
    using less_plus2 [OF a assms(2)] assms(1) by (metis order_less_imp_le)
  then have "unat ((of_nat n :: size_t) + 2 - of_nat a) = unat ((of_nat n :: size_t) + 2) - unat (of_nat a :: size_t)"
    by (rule unat_sub)
  then show ?thesis
    using unat_plus2 [OF assms(2)] unat_of_nat_size_t [OF a] by presburger
qed

lemma ishex_not_CR: "\<not> ishex CR"
  by (simp add: ishex_def CR_def)

lemma size_line_no_CR: "list_all ishex ds \<Longrightarrow> CR \<notin> set ds"
  using ishex_not_CR by (auto simp add: list_all_iff)

lemma parseChunkLength_size_line:
  assumes "list_all ishex ds"
  shows "parseChunkLength (ds @ CRLF @ b) = (of_nat (length ds + 2), of_nat (hexadecimal ds))"
proof -
  have "takeWhile ishex (ds @ CRLF @ b) = ds @ takeWhile ishex (CRLF @ b)"
    using assms by (intro takeWhile_append2) (simp add: list_all_iff)
  then have "takeWhile ishex (ds @ CRLF @ b) = ds"
    using ishex_not_CR by (simp add: CRLF_def)
  then show ?thesis
    by (simp add: parseChunkLength_def Let_def)
qed

lemma consume_size_line:
  assumes "m_response s = ds @ CRLF @ b" and "length (m_response s) < 18446744073709551616"
  shows "consume (of_nat (length ds + 2)) s = s\<lparr>m_response := b\<rparr>"
proof -
  have "length ds + 2 < 18446744073709551616"
    using assms by (simp add: CRLF_def)
  then have "unat (of_nat (length ds + 2) :: size_t) = length ds + 2"
    by (rule unat_of_nat_size_t)
  moreover have "drop (length ds + 2) (ds @ CRLF @ b) = b"
    by (simp add: CRLF_def)
  ultimately show ?thesis
    unfolding consume_def assms(1) by presburger
qed

lemma chunk_length_zero:
  assumes "m_response s = ds @ CRLF @ b" and "list_all ishex ds" and "hexadecimal ds = 0"
    and "length (m_response s) < 18446744073709551616"
  shows "m_handleReadChunkLength now Success s
           = m_shutdown (call_eof ((restartTimer now s)\<lparr>m_response := b\<rparr>))"
proof -
  have p: "parseChunkLength (m_response (restartTimer now s)) = (of_nat (length ds + 2), 0)"
    using parseChunkLength_size_line [OF assms(2), of b] assms(1,3) by simp
  have c: "consume (of_nat (length ds + 2)) (restartTimer now s)
      = (restartTimer now s)\<lparr>m_response := b\<rparr>"
    by (rule consume_size_line) (use assms in simp_all)
  show ?thesis
    unfolding m_handleReadChunkLength_def Let_def p prod.case c by simp
qed

lemma chunk_length_positive:
  assumes "m_response s = ds @ CRLF @ b" and "list_all ishex ds" and "hexadecimal ds = n"
    and "0 < n" and "n + 2 < 18446744073709551616"
    and "length (m_response s) < 18446744073709551616"
  shows "m_handleReadChunkLength now Success s
           = (if length b < n + 2
              then issue (AsyncReadAtLeast (of_nat n + 2 - of_nat (length b)))
                     (HReadChunkData (of_nat n)) ((restartTimer now s)\<lparr>m_response := b\<rparr>)
              else m_handleReadChunkData now Success (of_nat n)
                     ((restartTimer now s)\<lparr>m_response := b\<rparr>))"
proof -
  have lb: "length b < 18446744073709551616"
    using assms(1,6) by (simp add: CRLF_def)
  have p: "parseChunkLength (m_response (restartTimer now s))
      = (of_nat (length ds + 2), of_nat n)"
    using parseChunkLength_size_line [OF assms(2), of b] assms(1,3) by simp
  have c: "consume (of_nat (length ds + 2)) (restartTimer now s)
      = (restartTimer now s)\<lparr>m_response := b\<rparr>"
    by (rule consume_size_line) (use assms in simp_all)
  have nz: "((of_nat n :: size_t) = 0) = False"
    using assms(4,5) by (simp add: of_nat_size_t_eq_0)
  have r: "response_size ((restartTimer now s)\<lparr>m_response := b\<rparr>) = of_nat (length b)"
    by (simp add: response_size_def)
  show ?thesis
    unfolding m_handleReadChunkLength_def Let_def p c prod.case nz r
      less_plus2 [OF lb assms(5)]
    by simp
qed

lemma chunk_data_complete:
  assumes "m_response s = p @ CRLF @ b" and "length p = n" and "0 < n"
    and "length (m_response s) < 18446744073709551616"
  shows "m_handleReadChunkData now Success (of_nat n) s
           = issue (AsyncReadUntil CRLF) HReadChunkLength
               ((call_data p (restartTimer now s))\<lparr>m_response := b\<rparr>)"
proof -
  have ln: "n < 18446744073709551616" and ln2: "n + 2 < 18446744073709551616"
    using assms(1,2,4) by (simp_all add: CRLF_def)
  have nz: "(0 < (of_nat n :: size_t)) = True"
    using assms(3) ln by (simp add: word_greater_zero_iff of_nat_size_t_eq_0)
  have un: "unat (of_nat n :: size_t) = n"
    using ln by (rule unat_of_nat_size_t)
  have "((of_nat (length (m_response s)) :: size_t) < of_nat n) = (length (m_response s) < n)"
    using assms(4) ln by (rule of_nat_size_t_less)
  moreover have "\<not> length (m_response s) < n"
    using assms(1,2) by simp
  ultimately have ge: "((of_nat (length (m_response s)) :: size_t) < of_nat n) = False"
    by simp
  have r: "response_size (restartTimer now s) = of_nat (length (m_response s))"
    "response_size (call_data x (restartTimer now s)) = of_nat (length (m_response s))" for x
    by (simp_all add: response_size_def call_data_def emit_def)
  have tk: "take n (m_response (restartTimer now s)) = p"
    using assms(1,2) by simp
  have dr: "drop (unat ((of_nat n :: size_t) + 2)) (m_response s) = b"
    unfolding unat_plus2 [OF ln2] using assms(1,2) by (simp add: CRLF_def)
  have c: "consume (of_nat n + 2) (call_data p (restartTimer now s))
      = (call_data p (restartTimer now s))\<lparr>m_response := b\<rparr>"
    using dr by (simp add: consume_def call_data_def emit_def)
  show ?thesis
    unfolding m_handleReadChunkData_def Let_def nz r ge un tk if_True if_False c
    by simp
qed

subsection \<open>The chunked decoder fed from the wire\<close>

lemma callbacks_simps [simp]:
  "callbacks [] = []"
  "callbacks (a # t) = (if is_wait a then callbacks t else a # callbacks t)"
  by (simp_all add: callbacks_def)

lemma callbacks_append [simp]: "callbacks (t @ u) = callbacks t @ callbacks u"
  by (simp add: callbacks_def)

lemma delivered_append [simp]: "delivered (t @ u) = delivered t @ delivered u"
  by (induction t rule: delivered.induct) simp_all

lemma callbacks_restartTimer [simp]:
  "callbacks (trace (restartTimer now s)) = callbacks (trace s)"
  by (simp add: restartTimer_trace callbacks_def)

lemma delivered_restartTimer [simp]:
  "delivered (trace (restartTimer now s)) = delivered (trace s)"
  by (simp add: restartTimer_trace)

text \<open>
  The partial delivery and the completion that follows it: when the follow-up read
  brings the rest of the payload and its terminator, the two data callbacks together
  carry the payload, and the decoder is back at the size line of the next chunk.
\<close>

lemma partial_delivery_completes:
  fixes L :: size_t
  assumes "length (m_response s) < unat L" and "m_dataCallback s"
    and "length p2 = unat L - length (m_response s)"
    and "length (p2 @ CRLF @ b) < 18446744073709551616"
    and "err c = Success" and "received c = p2 @ CRLF @ b"
  shows "\<exists>s'. deliver (Io c) (m_handleReadChunkData now Success L s) = Inr s'
           \<and> awaiting_chunk s' \<and> m_response s' = b
           \<and> delivered (trace s') = delivered (trace s) @ m_response s @ p2"
proof -
  define L' where "L' = L + 2 - of_nat (length (m_response s)) - 2"
  define s1 where "s1 = m_handleReadChunkData now Success L s"
  have s1: "s1 = (call_data (m_response s) (restartTimer now s))
        \<lparr>m_response := [],
         pending := Some (AsyncReadAtLeast (L + 2 - of_nat (length (m_response s))),
                          HReadChunkData L')\<rparr>"
    unfolding s1_def L'_def by (rule partial_delivery_state [OF assms(1)])
  have "unat L' = length p2"
    unfolding L'_def assms(3) by (rule remainder_arith [OF assms(1)])
  then have L': "L' = of_nat (length p2)"
    by (metis of_nat_unat unsigned_word_eqI ucast_id)
  have pos: "0 < length p2"
    using assms(1,3) by simp
  define t where "t = s1\<lparr>pending := None, m_response := m_response s1 @ received c\<rparr>"
  have tr: "m_response t = p2 @ CRLF @ b"
    by (simp add: t_def s1 assms(6))
  have tl: "length (m_response t) < 18446744073709551616"
    using assms(4) by (simp add: tr)
  define s' where "s' = issue (AsyncReadUntil CRLF) HReadChunkLength
      ((call_data p2 (restartTimer (clock c) t))\<lparr>m_response := b\<rparr>)"
  have h: "m_handleReadChunkData (clock c) Success (of_nat (length p2)) t = s'"
    unfolding s'_def by (rule chunk_data_complete [OF tr refl pos tl])
  have "deliver (Io c) s1 = Inr s'"
    using h by (simp add: s1 t_def L' assms(5))
  moreover have "awaiting_chunk s'" "m_response s' = b"
    by (simp_all add: s'_def awaiting_chunk_def issue_def call_data_def emit_def)
  moreover have "m_dataCallback t" "trace t = trace (restartTimer now s) @ [DataCallback (m_response s)]"
    using assms(2) by (simp_all add: t_def s1 call_data_def emit_def)
  then have "trace s' = trace (restartTimer (clock c) t) @ [DataCallback p2]"
    by (simp add: s'_def issue_def call_data_def emit_def)
  then have "delivered (trace s') = delivered (trace t) @ p2"
    by simp
  then have "delivered (trace s') = delivered (trace s) @ m_response s @ p2"
    using \<open>trace t = trace (restartTimer now s) @ [DataCallback (m_response s)]\<close> by simp
  ultimately show ?thesis
    unfolding s1_def by blast
qed

lemma trace_restartTimer_update [simp]:
  "trace (restartTimer now (s\<lparr>pending := q\<rparr>)) = trace (restartTimer now s)"
  "trace (restartTimer now (s\<lparr>m_response := r\<rparr>)) = trace (restartTimer now s)"
  by (simp_all add: restartTimer_def emit_def)

lemma serve_idle: "pending s = None \<Longrightarrow> serve sched wire s = Inr (s, wire)"
  by (cases sched) auto

lemma serve_read:
  assumes "pending s = Some (op, h)" and "is_read op"
    and "grant op (m_response s) wire extra = (e, k)"
    and "invoke h \<lparr>clock = now, err = e, endpoints = [], received = take k wire, junk = 0\<rparr>
           (s\<lparr>pending := None, m_response := m_response s @ take k wire\<rparr>) = Inr s'"
  shows "serve ((now, extra) # sched) wire s = serve sched (drop k wire) s'"
  using assms by simp

lemma max_size_pos: "0 < max_size"
  by (simp add: max_size_def)

lemma need_until_le:
  "has_infix d (buf @ take i wire) \<Longrightarrow> \<exists>j\<le>i. need_until d buf wire = Some j"
proof (induction wire arbitrary: buf i)
  case Nil
  then show ?case by simp
next
  case (Cons c wire)
  show ?case
  proof (cases "has_infix d buf")
    case True
    then show ?thesis by simp
  next
    case False
    then obtain i' where i: "i = Suc i'"
      using Cons.prems by (cases i) auto
    then have "has_infix d ((buf @ [c]) @ take i' wire)"
      using Cons.prems by simp
    then obtain j where "j \<le> i'" and "need_until d (buf @ [c]) wire = Some j"
      using Cons.IH by blast
    then show ?thesis
      using False i by simp
  qed
qed

text \<open>
  A read until the delimiter succeeds when the delimiter arrives before the buffer is
  full: what is buffered afterwards contains it and is within the maximum size.
\<close>

lemma grant_until:
  assumes "has_infix d (buf @ take i wire)" and "length buf + i \<le> max_size"
  shows "\<exists>k. grant (AsyncReadUntil d) buf wire extra = (Success, k)
           \<and> k \<le> length wire \<and> length buf + k \<le> max_size
           \<and> has_infix d (buf @ take k wire)"
proof -
  obtain j where ji: "j \<le> i" and j: "need_until d buf wire = Some j"
    using need_until_le [OF assms(1)] by blast
  note n = need_until_Some [OF j]
  have room: "j \<le> max_size - length buf"
    using ji assms(2) by simp
  show ?thesis
  proof (cases "j = 0")
    case True
    then show ?thesis
      using j n room assms(2) by (simp add: Let_def)
  next
    case False
    define k where "k = min (min (j + extra) (max_size - length buf)) (length wire)"
    have "j \<le> k" "k \<le> length wire" "length buf + k \<le> max_size"
      using n room assms(2) by (simp_all add: k_def)
    then have "take k wire = take j wire @ drop j (take k wire)"
      by (metis append_take_drop_id min.absorb_iff2 take_take min.commute)
    then have "has_infix d (buf @ take k wire)"
      using n has_infix_append [of d "buf @ take j wire" "drop j (take k wire)"] by simp
    then show ?thesis
      using j False room \<open>k \<le> length wire\<close> \<open>length buf + k \<le> max_size\<close>
      by (simp add: k_def Let_def)
  qed
qed

text \<open>
  A read of at least \<open>n\<close> bytes that the stream can satisfy succeeds: it has appended
  \<open>n\<close> bytes or more, or it has filled the buffer.
\<close>

lemma grant_at_least:
  assumes "unat n \<le> length wire" and "n \<noteq> 0" and "length buf \<le> max_size"
  shows "\<exists>k. grant (AsyncReadAtLeast n) buf wire extra = (Success, k)
           \<and> k \<le> length wire \<and> length buf + k \<le> max_size
           \<and> (unat n \<le> k \<or> length buf + k = max_size)"
proof -
  define k where "k = min (min (unat n + extra) (max_size - length buf)) (length wire)"
  have "grant (AsyncReadAtLeast n) buf wire extra = (Success, k)"
    using assms(1,2) by (simp add: k_def Let_def)
  moreover have "k \<le> length wire" "length buf + k \<le> max_size"
    using assms(3) by (simp_all add: k_def)
  moreover have "unat n \<le> k \<or> length buf + k = max_size"
    using assms(1,3) by (auto simp add: k_def min_def)
  ultimately show ?thesis
    by blast
qed

text \<open>A size line that fits in the buffer arrives before the buffer is full.\<close>

lemma size_line_arrives:
  assumes "buf @ wire = ds @ CRLF @ r" and "length ds + 2 \<le> max_size"
    and "length buf \<le> max_size"
  shows "\<exists>i. has_infix CRLF (buf @ take i wire) \<and> length buf + i \<le> max_size"
proof (cases "length ds + 2 \<le> length buf")
  case True
  have "buf @ wire = (ds @ CRLF) @ r" and "length (ds @ CRLF) \<le> length buf"
    using assms(1) True by (simp_all add: CRLF_def)
  then obtain b where "buf = (ds @ CRLF) @ b"
    using buffered_prefix by blast
  then have "has_infix CRLF (buf @ take 0 wire)"
    unfolding has_infix_iff by auto
  then show ?thesis
    using assms(3) by (intro exI [of _ 0]) simp
next
  case False
  define i where "i = length ds + 2 - length buf"
  have "take (length buf + i) (buf @ wire) = buf @ take i wire"
    by simp
  moreover have "take (length buf + i) (buf @ wire) = ds @ CRLF"
    using False unfolding assms(1) by (simp add: i_def CRLF_def)
  ultimately have "buf @ take i wire = ds @ CRLF @ []"
    by simp
  then have "has_infix CRLF (buf @ take i wire)"
    unfolding has_infix_iff by blast
  moreover have "length buf + i \<le> max_size"
    using False assms(2) by (simp add: i_def)
  ultimately show ?thesis
    by blast
qed


text \<open>The size line of the last chunk: end of stream, then shutdown.\<close>

lemma serve_zero_chunk:
  assumes "awaiting_chunk s" and "m_response s @ wire = zero @ CRLF @ trailer"
    and "size_line zero 0" and "length zero + 2 \<le> max_size"
    and "length (m_response s) \<le> max_size"
    and "length (m_response s @ wire) < 18446744073709551616"
    and "m_eofCallback s"
  shows "\<exists>s' wire'. serve ((now, extra) # sched) wire s = Inr (s', wire')
           \<and> pending s' = None \<and> \<not> socket_is_open s' \<and> \<not> m_active s'
           \<and> callbacks (trace s') = callbacks (trace s) @ [EofCallback, Shutdown]"
proof -
  have hex: "list_all ishex zero" and val: "hexadecimal zero = 0"
    using assms(3) by (simp_all add: size_line_def)
  obtain i where "has_infix CRLF (m_response s @ take i wire)"
    and "length (m_response s) + i \<le> max_size"
    using size_line_arrives [OF assms(2,4,5)] by blast
  then obtain k where g: "grant (AsyncReadUntil CRLF) (m_response s) wire extra = (Success, k)"
    and k: "k \<le> length wire" and inf: "has_infix CRLF (m_response s @ take k wire)"
    using grant_until by blast
  have "(m_response s @ take k wire) @ drop k wire = zero @ CRLF @ trailer"
    using assms(2) by simp
  then obtain b where b: "m_response s @ take k wire = zero @ CRLF @ b"
    using size_line_buffered [OF _ inf size_line_no_CR [OF hex]] by blast
  define s1 where "s1 = s\<lparr>pending := None, m_response := m_response s @ take k wire\<rparr>"
  define s' where "s' = m_shutdown (call_eof ((restartTimer now s1)\<lparr>m_response := b\<rparr>))"
  have len: "length (m_response s1) < 18446744073709551616"
    using assms(6) k by (simp add: s1_def)
  have h: "m_handleReadChunkLength now Success s1 = s'"
    unfolding s'_def by (rule chunk_length_zero [OF _ hex val len]) (simp add: s1_def b)
  have step: "serve ((now, extra) # sched) wire s = serve sched (drop k wire) s'"
    by (rule serve_read [where h = HReadChunkLength, OF _ _ g])
      (use assms(1) h in \<open>simp_all add: awaiting_chunk_def s1_def\<close>)
  have p: "pending s' = None" "\<not> socket_is_open s'" "\<not> m_active s'"
    by (simp_all add: s'_def s1_def m_shutdown_def call_eof_def emit_def Let_def)
  have sv: "serve ((now, extra) # sched) wire s = Inr (s', drop k wire)"
    using step serve_idle [OF p(1)] by (rule trans)
  have t: "trace s' = trace (restartTimer now s) @ [EofCallback, Shutdown]"
    using assms(7) by (simp add: s'_def s1_def m_shutdown_def call_eof_def emit_def Let_def)
  have "callbacks (trace s') = callbacks (trace s) @ [EofCallback, Shutdown]"
    unfolding t by simp
  with sv p show ?thesis
    by blast
qed

text \<open>The chunk-body handler on a buffer that holds the payload and its terminator.\<close>

lemma chunk_data_buffered:
  assumes "m_response t @ w = p @ CRLF @ rest" and "length p + 2 \<le> length (m_response t)"
    and "p \<noteq> []" and "length (m_response t) < 18446744073709551616"
    and "m_dataCallback t"
  shows "\<exists>t'. m_handleReadChunkData now Success (of_nat (length p)) t = t'
           \<and> awaiting_chunk t' \<and> m_response t' @ w = rest
           \<and> length (m_response t') \<le> length (m_response t)
           \<and> trace t' = trace (restartTimer now t) @ [DataCallback p]
           \<and> m_dataCallback t' \<and> m_eofCallback t' = m_eofCallback t"
proof -
  have "m_response t @ w = (p @ CRLF) @ rest" and "length (p @ CRLF) \<le> length (m_response t)"
    using assms(1,2) by (simp_all add: CRLF_def)
  then obtain b where b: "m_response t = (p @ CRLF) @ b" and bw: "b @ w = rest"
    using buffered_prefix by blast
  define t' where "t' = issue (AsyncReadUntil CRLF) HReadChunkLength
      ((call_data p (restartTimer now t))\<lparr>m_response := b\<rparr>)"
  have "m_handleReadChunkData now Success (of_nat (length p)) t = t'"
    unfolding t'_def
    by (rule chunk_data_complete [OF _ refl _ assms(4)]) (use b assms(3) in simp_all)
  moreover have "awaiting_chunk t'" "m_response t' @ w = rest"
    "length (m_response t') \<le> length (m_response t)"
    "trace t' = trace (restartTimer now t) @ [DataCallback p]"
    "m_dataCallback t'" "m_eofCallback t' = m_eofCallback t"
    using assms(5) bw b
    by (simp_all add: t'_def awaiting_chunk_def issue_def call_data_def emit_def)
  ultimately show ?thesis
    by blast
qed


text \<open>
  The payload of one chunk, from the read the chunk-size handler issued: while the
  buffer fills before the terminator is in, the handler delivers what is buffered and
  reads on; the last completion holds the rest of the payload and the terminator.
\<close>

lemma serve_payload:
  assumes "pending s = Some (AsyncReadAtLeast (of_nat (length p) + 2 - of_nat (length (m_response s))),
                             HReadChunkData (of_nat (length p)))"
    and "length (m_response s) < length p + 2"
    and "m_response s @ wire = p @ CRLF @ rest"
    and "length (m_response s) \<le> max_size"
    and "length p mod max_size \<noteq> 0" and "length p mod max_size \<noteq> max_size - 1"
    and "length (m_response s @ wire) < 18446744073709551616"
    and "m_dataCallback s"
    and "length p div max_size + 1 \<le> length sched"
  shows "\<exists>sched' s' wire' pieces. serve sched wire s = serve sched' wire' s'
           \<and> length sched \<le> length sched' + length p div max_size + 1
           \<and> awaiting_chunk s' \<and> m_response s' @ wire' = rest
           \<and> length (m_response s') \<le> max_size
           \<and> callbacks (trace s') = callbacks (trace s) @ map DataCallback pieces
           \<and> concat pieces = p
           \<and> m_dataCallback s' \<and> m_eofCallback s' = m_eofCallback s"
  using assms
proof (induction "length p" arbitrary: p s wire sched rule: less_induct)
  case less
  define L where "L = length p"
  define b where "b = m_response s"
  obtain now extra sched1 where sched: "sched = (now, extra) # sched1"
    using less.prems(9) by (cases sched) auto
  have total: "length b + length wire = L + 2 + length rest"
    using less.prems(3) unfolding b_def L_def
    by (metis length_append add.assoc CRLF_def length_Cons list.size(3) One_nat_def
        Suc_1 add_Suc_right add_Suc add_0_right)
  have big: "length b + length wire < 18446744073709551616"
    using less.prems(7) by (simp add: b_def)
  have n2: "L + 2 < 18446744073709551616" and nL: "L < 18446744073709551616"
    using total big by linarith+
  have pne: "p \<noteq> []"
    using less.prems(5) by auto
  define m :: size_t where "m = of_nat L + 2 - of_nat (length b)"
  have short: "length b < L + 2"
    using less.prems(2) by (simp add: b_def L_def)
  have um: "unat m = L + 2 - length b"
    unfolding m_def by (rule unat_shortfall [OF short n2])
  have mw: "unat m \<le> length wire"
    using um total by simp
  have mz: "m \<noteq> 0"
    using um short by (metis diff_is_0_eq not_less unat_0)
  have bmax: "length b \<le> max_size"
    using less.prems(4) by (simp add: b_def)
  obtain k where g: "grant (AsyncReadAtLeast m) b wire extra = (Success, k)"
    and k: "k \<le> length wire" "length b + k \<le> max_size"
    and kk: "unat m \<le> k \<or> length b + k = max_size"
    using grant_at_least [OF mw mz bmax] by blast
  have pend: "pending s = Some (AsyncReadAtLeast m, HReadChunkData (of_nat L))"
    using less.prems(1) by (simp add: m_def b_def L_def)
  define t where "t = s\<lparr>pending := None, m_response := m_response s @ take k wire\<rparr>"
  have tw: "m_response t @ drop k wire = p @ CRLF @ rest"
    using less.prems(3) by (simp add: t_def)
  have tlen: "length (m_response t) = length b + k"
    using k(1) by (simp add: t_def b_def)
  have tm: "length (m_response t) < 18446744073709551616"
    using tlen k(1) big by simp
  have td: "m_dataCallback t" and te: "m_eofCallback t = m_eofCallback s"
    and tt: "trace t = trace s"
    using less.prems(8) by (simp_all add: t_def)
  show ?case
  proof (cases "L + 2 \<le> length b + k")
    case True
    then have tl: "length p + 2 \<le> length (m_response t)"
      by (simp add: tlen L_def)
    from chunk_data_buffered [OF tw tl pne tm td, of now]
    obtain s4 where h2: "m_handleReadChunkData now Success (of_nat (length p)) t = s4"
      and f: "awaiting_chunk s4" "m_response s4 @ drop k wire = rest"
        "length (m_response s4) \<le> length (m_response t)"
        "trace s4 = trace (restartTimer now t) @ [DataCallback p]"
        "m_dataCallback s4" "m_eofCallback s4 = m_eofCallback t"
      by blast
    have step: "serve ((now, extra) # sched1) wire s = serve sched1 (drop k wire) s4"
      by (rule serve_read [where h = "HReadChunkData (of_nat L)", OF pend _ _])
        (use g h2 in \<open>simp_all add: t_def b_def L_def\<close>)
    have cb: "callbacks (trace s4) = callbacks (trace s) @ map DataCallback [p]"
      unfolding f(4) by (simp add: restartTimer_trace tt)
    have "length (m_response s4) \<le> max_size"
      using f(3) tlen k(2) by simp
    then show ?thesis
      using step f(1,2,5,6) te cb sched
      by (intro exI [of _ sched1] exI [of _ s4] exI [of _ "drop k wire"] exI [of _ "[p]"]) simp
  next
    case False
    then have full: "length b + k = max_size"
      using kk um by linarith
    have "max_size < L + 2"
      using False full by simp
    moreover have "L \<noteq> max_size - 1"
      using less.prems(6) max_size_pos by (auto simp add: L_def)
    moreover have "L \<noteq> max_size"
      using less.prems(5) by (auto simp add: L_def)
    ultimately have gt: "max_size < L"
      by linarith
    have tfull: "length (m_response t) = max_size"
      using tlen full by simp
    have uL: "unat (of_nat L :: size_t) = L"
      using nL by (rule unat_of_nat_size_t)
    have lt: "length (m_response t) < unat (of_nat L :: size_t)"
      using gt tfull uL by simp
    define s1 where "s1 = m_handleReadChunkData now Success (of_nat L) t"
    have s1: "s1 = (call_data (m_response t) (restartTimer now t))
        \<lparr>m_response := [],
         pending := Some (AsyncReadAtLeast (of_nat L + 2 - of_nat max_size),
                          HReadChunkData (of_nat L + 2 - of_nat max_size - 2))\<rparr>"
      unfolding s1_def using partial_delivery_state [OF lt, of now] unfolding tfull .
    define p' where "p' = drop max_size p"
    have lp': "length p' = L - max_size"
      by (simp add: p'_def L_def)
    have w1: "(of_nat L :: size_t) + 2 - of_nat max_size - 2 = of_nat (length p')"
      using gt by (simp add: lp' of_nat_diff)
    have w2: "(of_nat L :: size_t) + 2 - of_nat max_size
        = of_nat (length p') + 2 - of_nat (length (m_response s1))"
      using gt by (simp add: lp' of_nat_diff s1)
    have "take max_size (m_response t @ drop k wire) = m_response t"
      using tfull by simp
    then have mt: "m_response t = take max_size p"
      unfolding tw using gt by (simp add: L_def)
    have "drop max_size (m_response t @ drop k wire) = drop k wire"
      using tfull by simp
    then have dw: "drop k wire = p' @ CRLF @ rest"
      unfolding tw using gt by (simp add: L_def p'_def)
    have step: "serve ((now, extra) # sched1) wire s = serve sched1 (drop k wire) s1"
      by (rule serve_read [where h = "HReadChunkData (of_nat L)", OF pend _ _])
        (use g in \<open>simp_all add: t_def b_def s1_def\<close>)
    have i1: "length p' < length p"
      using gt max_size_pos by (simp add: lp' L_def)
    have i2: "pending s1 = Some (AsyncReadAtLeast (of_nat (length p') + 2
          - of_nat (length (m_response s1))), HReadChunkData (of_nat (length p')))"
      unfolding w2 [symmetric] w1 [symmetric] by (simp add: s1)
    have i3: "length (m_response s1) < length p' + 2"
      by (simp add: s1)
    have i4: "m_response s1 @ drop k wire = p' @ CRLF @ rest"
      using dw by (simp add: s1)
    have i5: "length (m_response s1) \<le> max_size"
      by (simp add: s1)
    have md: "length p' mod max_size = length p mod max_size"
      using gt le_mod_geq [of max_size L] by (simp add: lp' L_def)
    have i6: "length p' mod max_size \<noteq> 0" and i7: "length p' mod max_size \<noteq> max_size - 1"
      using less.prems(5,6) md by simp_all
    have i8: "length (m_response s1 @ drop k wire) < 18446744073709551616"
      using big by (simp add: s1)
    have i9: "m_dataCallback s1"
      using td by (simp add: s1 call_data_def emit_def)
    have dv: "L div max_size = Suc (length p' div max_size)"
      using gt max_size_pos le_div_geq [of max_size L] by (simp add: lp')
    have i10: "length p' div max_size + 1 \<le> length sched1"
      using less.prems(9) dv by (simp add: sched L_def)
    from less.hyps [OF i1 i2 i3 i4 i5 i6 i7 i8 i9 i10]
    obtain sched' s' wire' pieces where r: "serve sched1 (drop k wire) s1 = serve sched' wire' s'"
      and rl: "length sched1 \<le> length sched' + length p' div max_size + 1"
      and rf: "awaiting_chunk s'" "m_response s' @ wire' = rest"
        "length (m_response s') \<le> max_size"
        "callbacks (trace s') = callbacks (trace s1) @ map DataCallback pieces"
        "concat pieces = p'"
        "m_dataCallback s'" "m_eofCallback s' = m_eofCallback s1"
      by blast
    have t1: "trace s1 = trace (restartTimer now t) @ [DataCallback (take max_size p)]"
      using td by (simp add: s1 call_data_def emit_def mt)
    have c1: "callbacks (trace s1) = callbacks (trace s) @ [DataCallback (take max_size p)]"
      unfolding t1 by (simp add: restartTimer_trace tt)
    have e1: "m_eofCallback s1 = m_eofCallback s"
      using te by (simp add: s1 call_data_def emit_def)
    have "serve sched wire s = serve sched' wire' s'"
      using step r unfolding sched by (rule trans)
    moreover have "length sched \<le> length sched' + length p div max_size + 1"
      using rl dv by (simp add: sched L_def)
    moreover have "callbacks (trace s') = callbacks (trace s) @ map DataCallback (take max_size p # pieces)"
      unfolding rf(4) c1 by simp
    moreover have "concat (take max_size p # pieces) = p"
      using rf(5) by (simp add: p'_def)
    ultimately show ?thesis
      using rf(1,2,3,6,7) e1
      by (intro exI [of _ sched'] exI [of _ s'] exI [of _ wire']
          exI [of _ "take max_size p # pieces"]) simp
  qed
qed


text \<open>One chunk: its size line, then its payload in as many pieces as the buffer makes.\<close>

lemma serve_chunk:
  assumes "awaiting_chunk s" and "m_response s @ wire = ds @ CRLF @ p @ CRLF @ rest"
    and "size_line ds (length p)" and "length ds + 2 \<le> max_size"
    and "length p mod max_size \<noteq> 0" and "length p mod max_size \<noteq> max_size - 1"
    and "length (m_response s) \<le> max_size"
    and "length (m_response s @ wire) < 18446744073709551616" and "m_dataCallback s"
    and "length p div max_size + 2 \<le> length sched"
  shows "\<exists>sched' s' wire' pieces. serve sched wire s = serve sched' wire' s'
           \<and> length sched \<le> length sched' + length p div max_size + 2
           \<and> awaiting_chunk s' \<and> m_response s' @ wire' = rest
           \<and> length (m_response s') \<le> max_size
           \<and> callbacks (trace s') = callbacks (trace s) @ map DataCallback pieces
           \<and> concat pieces = p
           \<and> m_dataCallback s' \<and> m_eofCallback s' = m_eofCallback s"
proof -
  obtain now extra sched1 where sched: "sched = (now, extra) # sched1"
    and l1: "length p div max_size + 1 \<le> length sched1"
    using assms(10) by (cases sched) auto
  have hex: "list_all ishex ds" and val: "hexadecimal ds = length p"
    using assms(3) by (simp_all add: size_line_def)
  have total: "length ds + 2 + length p + 2 + length rest < 18446744073709551616"
    using assms(8) unfolding assms(2) by (simp add: CRLF_def)
  have n2: "length p + 2 < 18446744073709551616"
    using total by linarith
  have pne: "p \<noteq> []"
    using assms(5) by auto
  then have pos: "0 < length p"
    by simp
  obtain i where "has_infix CRLF (m_response s @ take i wire)"
    and "length (m_response s) + i \<le> max_size"
    using size_line_arrives [OF assms(2,4,7)] by blast
  then obtain k where g: "grant (AsyncReadUntil CRLF) (m_response s) wire extra = (Success, k)"
    and k: "k \<le> length wire" and kmax: "length (m_response s) + k \<le> max_size"
    and inf: "has_infix CRLF (m_response s @ take k wire)"
    using grant_until by blast
  have "(m_response s @ take k wire) @ drop k wire = ds @ CRLF @ p @ CRLF @ rest"
    using assms(2) by simp
  then obtain b where b: "m_response s @ take k wire = ds @ CRLF @ b"
    and bw: "b @ drop k wire = p @ CRLF @ rest"
    using size_line_buffered [OF _ inf size_line_no_CR [OF hex]] by blast
  define s1 where "s1 = s\<lparr>pending := None, m_response := m_response s @ take k wire\<rparr>"
  define s2 where "s2 = (restartTimer now s1)\<lparr>m_response := b\<rparr>"
  have len1: "length (m_response s1) < 18446744073709551616"
    using assms(8) k by (simp add: s1_def)
  have lenb: "length b + length (drop k wire) = length p + 2 + length rest"
    using bw by (metis length_append add.assoc CRLF_def length_Cons list.size(3) One_nat_def
        Suc_1 add_Suc_right add_Suc add_0_right)
  have len2: "length (m_response s2) < 18446744073709551616"
    using lenb total by (simp add: s2_def)
  have "length (m_response s) + length (take k wire) = length ds + 2 + length b"
    using b by (metis length_append add.assoc CRLF_def length_Cons list.size(3) One_nat_def
        Suc_1 add_Suc_right add_Suc add_0_right)
  then have bmax: "length b \<le> max_size"
    using kmax k by simp
  have h1: "m_handleReadChunkLength now Success s1
      = (if length b < length p + 2
         then issue (AsyncReadAtLeast (of_nat (length p) + 2 - of_nat (length b)))
                (HReadChunkData (of_nat (length p))) s2
         else m_handleReadChunkData now Success (of_nat (length p)) s2)"
    unfolding s2_def
    by (rule chunk_length_positive [OF _ hex val pos n2 len1]) (simp add: s1_def b)
  have s2_facts: "m_response s2 = b" "m_dataCallback s2" "m_eofCallback s2 = m_eofCallback s"
    "callbacks (trace s2) = callbacks (trace s)"
    using assms(9) by (simp_all add: s2_def s1_def)
  show ?thesis
  proof (cases "length b < length p + 2")
    case False
    then have "length p + 2 \<le> length (m_response s2)"
      by (simp add: s2_facts)
    from chunk_data_buffered [OF _ this pne len2 s2_facts(2), of "drop k wire" rest now]
    obtain s3 where h2: "m_handleReadChunkData now Success (of_nat (length p)) s2 = s3"
      and f: "awaiting_chunk s3" "m_response s3 @ drop k wire = rest"
        "length (m_response s3) \<le> length (m_response s2)"
        "trace s3 = trace (restartTimer now s2) @ [DataCallback p]"
        "m_dataCallback s3" "m_eofCallback s3 = m_eofCallback s2"
      using bw by (auto simp add: s2_facts)
    have "serve ((now, extra) # sched1) wire s = serve sched1 (drop k wire) s3"
      by (rule serve_read [where h = HReadChunkLength, OF _ _ g])
        (use assms(1) h1 h2 False in \<open>simp_all add: awaiting_chunk_def s1_def\<close>)
    moreover have "callbacks (trace s3) = callbacks (trace s) @ map DataCallback [p]"
      unfolding f(4) by (simp add: s2_facts)
    moreover have "length (m_response s3) \<le> max_size"
      using f(3) bmax by (simp add: s2_facts)
    ultimately show ?thesis
      using f(1,2,5,6) s2_facts(3) sched
      by (intro exI [of _ sched1] exI [of _ s3] exI [of _ "drop k wire"] exI [of _ "[p]"]) simp
  next
    case True
    define s3 where "s3 = issue (AsyncReadAtLeast (of_nat (length p) + 2 - of_nat (length b)))
        (HReadChunkData (of_nat (length p))) s2"
    have step1: "serve ((now, extra) # sched1) wire s = serve sched1 (drop k wire) s3"
      by (rule serve_read [where h = HReadChunkLength, OF _ _ g])
        (use assms(1) h1 True in \<open>simp_all add: awaiting_chunk_def s1_def s3_def\<close>)
    have s3_facts: "m_response s3 = b" "m_dataCallback s3" "m_eofCallback s3 = m_eofCallback s"
      "trace s3 = trace s2"
      by (simp_all add: s3_def issue_def s2_facts)
    have j1: "pending s3 = Some (AsyncReadAtLeast (of_nat (length p) + 2
          - of_nat (length (m_response s3))), HReadChunkData (of_nat (length p)))"
      by (simp add: s3_def issue_def s2_facts)
    have j2: "length (m_response s3) < length p + 2"
      using True by (simp add: s3_facts)
    have j3: "m_response s3 @ drop k wire = p @ CRLF @ rest"
      using bw by (simp add: s3_facts)
    have j4: "length (m_response s3) \<le> max_size"
      using bmax by (simp add: s3_facts)
    have j7: "length (m_response s3 @ drop k wire) < 18446744073709551616"
      using lenb total by (simp add: s3_facts)
    from serve_payload [OF j1 j2 j3 j4 assms(5,6) j7 s3_facts(2) l1]
    obtain sched' s' wire' pieces where r: "serve sched1 (drop k wire) s3 = serve sched' wire' s'"
      and rl: "length sched1 \<le> length sched' + length p div max_size + 1"
      and rf: "awaiting_chunk s'" "m_response s' @ wire' = rest"
        "length (m_response s') \<le> max_size"
        "callbacks (trace s') = callbacks (trace s3) @ map DataCallback pieces"
        "concat pieces = p"
        "m_dataCallback s'" "m_eofCallback s' = m_eofCallback s3"
      by blast
    have "serve sched wire s = serve sched' wire' s'"
      using step1 r unfolding sched by (rule trans)
    moreover have "length sched \<le> length sched' + length p div max_size + 2"
      using rl by (simp add: sched)
    moreover have "callbacks (trace s') = callbacks (trace s) @ map DataCallback pieces"
      unfolding rf(4) by (simp add: s3_facts s2_facts)
    moreover have "m_eofCallback s' = m_eofCallback s"
      using rf(7) by (simp add: s3_facts)
    ultimately show ?thesis
      using rf(1,2,3,5,6)
      by (intro exI [of _ sched'] exI [of _ s'] exI [of _ wire'] exI [of _ pieces]) simp
  qed
qed

lemma chunked_body_Nil: "chunked_body [] zero trailer = zero @ CRLF @ trailer"
  by (simp add: chunked_body_def)

lemma chunked_body_Cons:
  "chunked_body ((ds, p) # cs) zero trailer
     = ds @ CRLF @ p @ CRLF @ chunked_body cs zero trailer"
  by (simp add: chunked_body_def chunk_def)

text \<open>
  The chunked decoder on a well-formed body whose chunks the buffer can take, however
  the transport cuts the stream into completions: the pieces handed to the data callback
  are, concatenated, the payloads in order; then the end-of-stream callback is invoked
  and the connection shuts down (nothing pending, socket closed, not active). The data
  and the end-of-stream callback are stored, the stream is shorter than \<open>2^64\<close> bytes,
  and \<open>completions cs\<close> completions are enough.
\<close>

lemma chunked_body_delivered:
  assumes "list_all well_formed_chunk cs" and "list_all fits_buffer cs"
    and "size_line zero 0" and "length zero + 2 \<le> max_size"
    and "awaiting_chunk s" and "m_response s @ wire = chunked_body cs zero trailer"
    and "length (m_response s) \<le> max_size"
    and "length (chunked_body cs zero trailer) < 18446744073709551616"
    and "m_dataCallback s" and "m_eofCallback s"
    and "completions cs \<le> length sched"
  shows "\<exists>s' wire' pieces. serve sched wire s = Inr (s', wire')
           \<and> pending s' = None \<and> \<not> socket_is_open s' \<and> \<not> m_active s'
           \<and> callbacks (trace s')
               = callbacks (trace s) @ map DataCallback pieces @ [EofCallback, Shutdown]
           \<and> concat pieces = concat (map snd cs)"
  using assms(1,2,5-)
proof (induction cs arbitrary: s wire sched)
  case Nil
  obtain now extra sched' where sched: "sched = (now, extra) # sched'"
    using Nil.prems(9) by (cases sched) (auto simp add: completions_def)
  have body: "m_response s @ wire = zero @ CRLF @ trailer"
    using Nil.prems(4) by (simp add: chunked_body_Nil)
  have "length (m_response s @ wire) < 18446744073709551616"
    using Nil.prems(4,6) by metis
  from serve_zero_chunk [OF Nil.prems(3) body assms(3,4) Nil.prems(5) this Nil.prems(8),
      of now extra sched']
  obtain s' wire' where "serve sched wire s = Inr (s', wire')" "pending s' = None"
    "\<not> socket_is_open s'" "\<not> m_active s'"
    "callbacks (trace s') = callbacks (trace s) @ [EofCallback, Shutdown]"
    unfolding sched by blast
  then show ?case
    by (intro exI [of _ s'] exI [of _ wire'] exI [of _ "[]"]) simp
next
  case (Cons c cs)
  obtain ds p where c: "c = (ds, p)"
    by (cases c)
  have wfs: "list_all well_formed_chunk cs" and fts: "list_all fits_buffer cs"
    and "well_formed_chunk c" and "fits_buffer c"
    using Cons.prems(1,2) by simp_all
  then have wf: "size_line ds (length p)" "length ds + 2 \<le> max_size"
    "length p mod max_size \<noteq> 0" "length p mod max_size \<noteq> max_size - 1"
    by (simp_all add: c well_formed_chunk_def fits_buffer_def)
  let ?rest = "chunked_body cs zero trailer"
  have body: "m_response s @ wire = ds @ CRLF @ p @ CRLF @ ?rest"
    using Cons.prems(4) by (simp add: c chunked_body_Cons)
  have len: "length (m_response s @ wire) < 18446744073709551616"
    using Cons.prems(4,6) by metis
  have cm: "completions (c # cs) = length p div max_size + 2 + completions cs"
    by (simp add: completions_def c)
  have two: "length p div max_size + 2 \<le> length sched"
    using Cons.prems(9) cm by simp
  from serve_chunk [OF Cons.prems(3) body wf Cons.prems(5) len Cons.prems(7) two]
  obtain sched' s1 wire1 pieces1 where step: "serve sched wire s = serve sched' wire1 s1"
    and l: "length sched \<le> length sched' + length p div max_size + 2"
    and f: "awaiting_chunk s1" "m_response s1 @ wire1 = ?rest"
      "length (m_response s1) \<le> max_size"
      "callbacks (trace s1) = callbacks (trace s) @ map DataCallback pieces1"
      "concat pieces1 = p"
      "m_dataCallback s1" "m_eofCallback s1 = m_eofCallback s"
    by blast
  have lrest: "length ?rest < 18446744073709551616"
    using Cons.prems(6) by (simp add: c chunked_body_Cons)
  have ls: "completions cs \<le> length sched'"
    using Cons.prems(9) l cm by simp
  have eof: "m_eofCallback s1"
    using f(7) Cons.prems(8) by simp
  from Cons.IH [OF wfs fts f(1,2,3) lrest f(6) eof ls]
  obtain s' wire' pieces where "serve sched' wire1 s1 = Inr (s', wire')" and "pending s' = None"
    and "\<not> socket_is_open s'" and "\<not> m_active s'"
    and "callbacks (trace s')
          = callbacks (trace s1) @ map DataCallback pieces @ [EofCallback, Shutdown]"
    and "concat pieces = concat (map snd cs)"
    by blast
  then show ?case
    using step f(4,5)
    by (intro exI [of _ s'] exI [of _ wire'] exI [of _ "pieces1 @ pieces"]) (simp add: c)
qed


text \<open>Two short chunks, and one chunk that is delivered in two pieces.\<close>

lemma hello_body_served:
  "list_all well_formed_chunk [(''5'', ''HELLO''), (''3'', ''abc'')]
   \<and> list_all fits_buffer [(''5'', ''HELLO''), (''3'', ''abc'')]
   \<and> completions [(''5'', ''HELLO''), (''3'', ''abc'')] = 5
   \<and> serve [(0, 0), (0, 1), (0, 0), (0, 2), (0, 0)] hello_body streaming
       = Inr (listener\<lparr>m_chunked := True,
                trace := [DataCallback ''HELLO'', DataCallback ''abc'', EofCallback, Shutdown]\<rparr>,
              CRLF)"
proof -
  let ?cs = "[(''5'', ''HELLO''), (''3'', ''abc'')]"
  let ?sched = "[(0, 0), (0, 1), (0, 0), (0, 2), (0::nat, 0::nat)]"
  have h1: "list_all well_formed_chunk ?cs"
    by (simp add: transport_defs)
  have h2: "list_all fits_buffer ?cs"
    by (simp add: fits_buffer_def max_size_def)
  have h3: "size_line ''0'' 0" and h4: "length ''0'' + 2 \<le> max_size"
    by (simp_all add: transport_defs max_size_def)
  have h5: "awaiting_chunk streaming"
    by (simp add: awaiting_chunk_def streaming_def)
  have h6: "m_response streaming @ hello_body = chunked_body ?cs ''0'' CRLF"
    by (simp add: hello_body_def streaming_def sample_defs)
  have h7: "length (m_response streaming) \<le> max_size"
    by (simp add: streaming_def sample_defs)
  have h8: "length (chunked_body ?cs ''0'' CRLF) < 18446744073709551616"
    by (simp add: transport_defs char_defs)
  have h9: "m_dataCallback streaming" and h10: "m_eofCallback streaming"
    by (simp_all add: streaming_def sample_defs)
  have c: "completions ?cs = 5"
    by (simp add: completions_def max_size_def)
  have h11: "completions ?cs \<le> length ?sched"
    unfolding c by simp
  have ev: "serve ?sched hello_body streaming
       = Inr (listener\<lparr>m_chunked := True,
                trace := [DataCallback ''HELLO'', DataCallback ''abc'', EofCallback, Shutdown]\<rparr>,
              CRLF)"
    by (simp add: hello_body_def streaming_def sample_defs char_defs handler_defs effect_defs
        transport_defs max_size_def Let_def)
  show ?thesis
    using h1 h2 c ev chunked_body_delivered [OF h1 h2 h3 h4 h5 h6 h7 h8 h9 h10 h11]
    by simp
qed

lemma need_until_buffered: "has_infix d buf \<Longrightarrow> need_until d buf wire = Some 0"
  by (cases wire) simp_all

lemma large_chunk_served:
  "serve [(0, 0), (0, 0), (0, 0), (0, 0)]
      (chunked_body [(''406'', replicate 1030 (CHR ''A''))] ''0'' CRLF) streaming
     = Inr (listener\<lparr>m_chunked := True,
              trace := [DataCallback (replicate 1024 (CHR ''A'')),
                        DataCallback (replicate 6 (CHR ''A'')), EofCallback, Shutdown]\<rparr>,
            CRLF)"
  by (simp add: streaming_def sample_defs char_defs handler_defs effect_defs
      transport_defs max_size_def Let_def need_until_buffered)

text \<open>
  Claim C4 (for every well-formed chunked body the concatenation of the spans handed to
  the data callback equals the concatenation of the chunk payloads, and the zero-length
  chunk triggers the end-of-stream callback followed by shutdown), evaluated on a
  response whose first chunk has a payload of 1024 bytes, followed by the chunk
  \<^verbatim>\<open>abc\<close> and the zero-length chunk. The read of payload and terminator completes when
  \<^verbatim>\<open>m_response\<close> is full, with the 1024 payload bytes and without the terminator. The
  chunk-body handler tests \<^verbatim>\<open>size > m_response.size()\<close>, finds the payload complete,
  delivers it, and \<^verbatim>\<open>consume(size + 2)\<close> removes the 1024 bytes that are there. The
  terminator is then read as the next size line, of length 0: the end-of-stream callback
  and the shutdown follow, \<^verbatim>\<open>abc\<close> is never delivered, and the rest of the stream is
  left unread.
\<close>

theorem full_buffer_chunk_ends_stream:
  "serve [(0, 0), (0, 0), (0, 0), (0, 0), (0, 0)] long_response awaiting_status
     = Inr (listener\<lparr>m_chunked := True, m_headers := [(''Transfer-Encoding'', ''chunked'')],
              trace := [HeadersCallback, DataCallback (replicate 1024 (CHR ''A'')),
                        EofCallback, Shutdown]\<rparr>,
            ''3'' @ CRLF @ ''abc'' @ CRLF @ ''0'' @ CRLF @ CRLF)"
  by (simp add: long_response_def max_size_def not_found_def sample_defs char_defs handler_defs
      effect_defs transport_defs Let_def need_until_buffered status_defs
      m_handleReadHeaders_def parse_headers.simps string_defs)

end
